theory Spec2Isabelle
  imports Complex_Main "HOL-Library.AList" "HOL-Library.Char_ord" "HOL-Library.List_Lexorder"
begin

section \<open>Python strings\<close>

text \<open>
  A Python \<open>str\<close> is modelled as a \<^typ>\<open>string\<close>; a \<^typ>\<open>char\<close> stands for a code point
  below 256.  \<open>isspace\<close> and \<open>isdigit\<close> list the code points below 256 for which
  Python's \<open>str.isspace\<close> and \<open>str.isdigit\<close> answer \<open>True\<close>.
\<close>

definition isspace :: "char \<Rightarrow> bool" where
  "isspace c \<longleftrightarrow> c \<in> set [CHR 0x09, CHR 0x0A, CHR 0x0B, CHR 0x0C, CHR 0x0D,
     CHR 0x1C, CHR 0x1D, CHR 0x1E, CHR 0x1F, CHR 0x20, CHR 0x85, CHR 0xA0]"

definition isdigit :: "char \<Rightarrow> bool" where
  "isdigit c \<longleftrightarrow> c \<in> set ''0123456789'' \<or> c \<in> set [CHR 0xB2, CHR 0xB3, CHR 0xB9]"

text \<open>\<open>s.strip()\<close>\<close>

definition strip :: "string \<Rightarrow> string" where
  "strip s = rev (dropWhile isspace (rev (dropWhile isspace s)))"

text \<open>\<open>s[1:-1]\<close>, also on strings shorter than two characters, where it is empty.\<close>

definition strip_ends :: "'a list \<Rightarrow> 'a list" where
  "strip_ends s = butlast (tl s)"

text \<open>\<open>s.split()\<close>: the maximal runs of non-whitespace characters, in order.\<close>

fun split_from :: "string \<Rightarrow> string \<Rightarrow> string list" where
  "split_from cur [] = (if cur = [] then [] else [cur])"
| "split_from cur (c # cs) =
     (if isspace c then (if cur = [] then split_from [] cs else cur # split_from [] cs)
      else split_from (cur @ [c]) cs)"

definition str_split :: "string \<Rightarrow> string list" where
  "str_split s = split_from [] s"

text \<open>\<open>" ".join(ws)\<close>\<close>

fun str_join :: "string list \<Rightarrow> string" where
  "str_join [] = []"
| "str_join [w] = w"
| "str_join (w # ws) = w @ '' '' @ str_join ws"

text \<open>\<open>str(n)\<close> for an integer: decimal digits, a minus sign when negative.\<close>

definition digit_char :: "nat \<Rightarrow> char" where
  "digit_char d = ''0123456789'' ! d"

fun str_nat :: "nat \<Rightarrow> string" where
  "str_nat n = (if n < 10 then [digit_char n] else str_nat (n div 10) @ [digit_char (n mod 10)])"

declare str_nat.simps [simp del]

definition str_int :: "int \<Rightarrow> string" where
  "str_int i = (if i < 0 then ''-'' @ str_nat (nat (- i)) else str_nat (nat i))"

section \<open>The chess library's game tree\<close>

text \<open>
  \<open>chess.pgn.read_game\<close> is the external rules engine; it is a parameter of the model,
  with \<open>None\<close> where it finds no game in the text.  What the extractor reads of a game is
  the main line: \<open>next()\<close> steps to the first variation, \<open>end().ply()\<close> counts the nodes
  of the main line (the movetext line carries no headers, so the game starts at ply 0).
  A game is the list of the main line's nodes after the root; each carries the move in
  UCI notation, the clock annotation and the evaluation annotation.
\<close>

datatype score = Cp int | Mate int | MateGiven

record pov_score =
  relative :: score
  turn :: bool

fun score_neg :: "score \<Rightarrow> score" where
  "score_neg (Cp x) = Cp (- x)"
| "score_neg (Mate m) = (if m = 0 then MateGiven else Mate (- m))"
| "score_neg MateGiven = Mate 0"

text \<open>\<open>PovScore.white()\<close>; \<open>turn\<close> is \<open>True\<close> for White.\<close>

definition white :: "pov_score \<Rightarrow> score" where
  "white p = (if turn p then relative p else score_neg (relative p))"

text \<open>\<open>Score.score()\<close> with no \<open>mate_score\<close>: \<open>None\<close> for a mate score.\<close>

fun score_score :: "score \<Rightarrow> int option" where
  "score_score (Cp x) = Some x"
| "score_score (Mate m) = None"
| "score_score MateGiven = None"

fun score_is_mate :: "score \<Rightarrow> bool" where
  "score_is_mate (Cp x) = False"
| "score_is_mate (Mate m) = True"
| "score_is_mate MateGiven = True"

text \<open>\<open>PovScore.is_mate()\<close>\<close>

definition is_mate :: "pov_score \<Rightarrow> bool" where
  "is_mate p = score_is_mate (relative p)"

record game_node =
  node_uci :: string
  node_clock :: "real option"
  node_eval :: "pov_score option"

type_synonym game = "game_node list"

section \<open>\<open>parse_pgn\<close>\<close>

datatype error = IndexError | AttributeError

text \<open>The values stored in a feature dictionary.\<close>

datatype pyval = VStr string | VInt int | VFloat real | VNone

text \<open>
  A Python \<open>dict\<close> keeps its keys in insertion order and an assignment to an existing key
  keeps the key's place: \<^const>\<open>AList.update\<close> on an association list.
\<close>

type_synonym features = "(string \<times> pyval) list"

definition keys :: "features \<Rightarrow> string set" where
  "keys fs = fst ` set fs"

text \<open>Lines 24 to 28: the loop over \<open>lines[:-1]\<close>; \<open>feature[0]\<close> raises on an empty list.\<close>

fun header_pass :: "string list \<Rightarrow> features \<Rightarrow> error + features" where
  "header_pass [] fs = Inr fs"
| "header_pass (line # rest) fs =
     (case str_split (strip_ends line) of
        [] \<Rightarrow> Inl IndexError
      | key # vs \<Rightarrow> header_pass rest (AList.update key (VStr (strip_ends (str_join vs))) fs))"

text \<open>
  Lines 37 to 39.  \<open>math.ceil(ply/2)\<close> is \<open>(ply + 1) div 2\<close>: halving in floating point is
  exact for every ply count that a game can reach.
\<close>

definition player :: "nat \<Rightarrow> string" where
  "player ply = (if ply mod 2 = 1 then ''white'' else ''black'')"

definition movenum :: "nat \<Rightarrow> nat" where
  "movenum ply = (ply + 1) div 2"

definition feature_name :: "nat \<Rightarrow> string" where
  "feature_name ply = player ply @ ''_move'' @ str_nat (movenum ply)"

definition ply_key :: "nat \<Rightarrow> string \<Rightarrow> string" where
  "ply_key ply field = feature_name ply @ ''_'' @ field"

definition opt_val :: "('a \<Rightarrow> pyval) \<Rightarrow> 'a option \<Rightarrow> pyval" where
  "opt_val f x = (case x of None \<Rightarrow> VNone | Some v \<Rightarrow> f v)"

text \<open>Lines 43 to 48: the assignments of one iteration, for the node \<open>nextpos\<close>.\<close>

definition ply_features :: "nat \<Rightarrow> game_node \<Rightarrow> features \<Rightarrow> features" where
  "ply_features ply nextpos fs =
     (let fs1 = AList.update (ply_key ply ''move'') (VStr (node_uci nextpos)) fs;
          fs2 = AList.update (ply_key ply ''timespent'') (opt_val VFloat (node_clock nextpos)) fs1
      in case node_eval nextpos of
           None \<Rightarrow> fs2
         | Some e \<Rightarrow>
             (let fs3 = AList.update (ply_key ply ''evalaftermove'')
                          (opt_val VInt (score_score (white e))) fs2
              in if is_mate e then AList.update (ply_key ply ''eval_is_mate'') (VInt 1) fs3
                 else fs3))"

text \<open>
  Lines 35 to 48: the loop over the plies of the range.  The second argument is what is
  left of the main line after \<open>nextpos\<close>; \<open>nextpos.next()\<close> is \<open>None\<close> at its end, and
  \<open>None.move\<close> raises.
\<close>

fun move_pass :: "nat list \<Rightarrow> game_node list \<Rightarrow> features \<Rightarrow> error + features" where
  "move_pass [] rest fs = Inr fs"
| "move_pass (ply # plies) [] fs = Inl AttributeError"
| "move_pass (ply # plies) (nextpos # rest) fs = move_pass plies rest (ply_features ply nextpos fs)"

text \<open>\<open>range(1, stop)\<close>\<close>

definition range1 :: "int \<Rightarrow> nat list" where
  "range1 stop = [1 ..< nat stop]"

definition parse_pgn ::
  "(string \<Rightarrow> game option) \<Rightarrow> string list \<Rightarrow> int \<Rightarrow> error + features" where
  "parse_pgn read_game lines max_ply =
     (case header_pass (butlast lines) [] of
        Inl e \<Rightarrow> Inl e
      | Inr fs \<Rightarrow>
          if lines = [] then Inl IndexError
          else
            (case read_game (last lines) of
               None \<Rightarrow> Inl AttributeError
             | Some game \<Rightarrow>
                 (let fs1 = AList.update ''Ply'' (VInt (int (length game))) fs
                  in move_pass (range1 (min (max_ply + 1) (int (length game)))) game fs1)))"

section \<open>\<open>export\<close>\<close>

text \<open>
  \<open>pd.DataFrame(game_batch)\<close> of a list of dictionaries: one row for each dictionary, and
  the columns are the keys in the order in which they are first seen.  The frame is what
  \<open>to_csv\<close> is given; the file is modelled by its name and the frame.
\<close>

record dataframe =
  columns :: "string list"
  rows :: "features list"

definition first_seen :: "'a list \<Rightarrow> 'a list" where
  "first_seen xs = rev (remdups (rev xs))"

definition DataFrame :: "features list \<Rightarrow> dataframe" where
  "DataFrame batch = \<lparr>columns = first_seen (concat (map (map fst) batch)), rows = batch\<rparr>"

definition csv_name :: "string \<Rightarrow> string \<Rightarrow> nat \<Rightarrow> string" where
  "csv_name path name n = path @ ''/'' @ name @ ''_batch'' @ str_nat n @ ''.csv''"

text \<open>
  Lines 71 and 72: the file that \<open>export\<close> writes.  What \<open>export\<close> returns, the columns of
  the frame (and the number of its rows when \<open>final_size\<close> is set), the callers below read
  from the frame.
\<close>

definition export :: "features list \<Rightarrow> string \<Rightarrow> string \<Rightarrow> nat \<Rightarrow> string \<times> dataframe" where
  "export batch path name n = (csv_name path name n, DataFrame batch)"

section \<open>\<open>batch_load_files_fromconsole\<close>\<close>

record config =
  export_path :: "string option"
  export_name :: "string option"
  max_ply :: int
  batch_size :: int
  print_progress :: bool

text \<open>Lines 105 to 108.\<close>

definition path_of :: "config \<Rightarrow> string" where
  "path_of cfg = (case export_path cfg of None \<Rightarrow> ''.'' | Some p \<Rightarrow> p)"

definition name_of :: "config \<Rightarrow> string" where
  "name_of cfg = (case export_name cfg of None \<Rightarrow> ''lichess_games'' | Some n \<Rightarrow> n)"

text \<open>
  The variables of the loop, the files written so far (in the order of writing) and the
  lines printed so far.
\<close>

record loop_state =
  game_batch :: "features list"
  currgame :: "string list"
  batchnum :: nat
  schema_columns :: "string set"
  line_num :: nat
  files :: "(string \<times> dataframe) list"
  stdout :: "string list"

definition init_state :: loop_state where
  "init_state = \<lparr>game_batch = [], currgame = [], batchnum = 1, schema_columns = {},
     line_num = 0, files = [], stdout = []\<rparr>"

definition progress :: "nat \<Rightarrow> int \<Rightarrow> string" where
  "progress n total_rows = str_nat n @ '' batches exported ('' @ str_int total_rows @ '' total rows)''"

text \<open>\<open>if print_progress: print(message)\<close>\<close>

definition report :: "config \<Rightarrow> string \<Rightarrow> string list" where
  "report cfg message = (if print_progress cfg then [message] else [])"

text \<open>Lines 127 to 132: the end-of-batch condition, after a game has been appended.\<close>

definition end_of_batch :: "config \<Rightarrow> loop_state \<Rightarrow> loop_state" where
  "end_of_batch cfg st =
     (if int (length (game_batch st)) = batch_size cfg then
        (let file = export (game_batch st) (path_of cfg) (name_of cfg) (batchnum st)
         in st\<lparr>schema_columns := schema_columns st \<union> set (columns (snd file)),
                files := files st @ [file],
                game_batch := [],
                stdout := stdout st @
                  report cfg (progress (batchnum st) (int (batchnum st) * batch_size cfg)),
                batchnum := batchnum st + 1\<rparr>)
      else st)"

text \<open>Lines 114 to 136: the body of the loop for one line of the input.\<close>

definition process_line ::
  "(string \<Rightarrow> game option) \<Rightarrow> config \<Rightarrow> loop_state \<Rightarrow> string \<Rightarrow> error + loop_state" where
  "process_line read_game cfg st line =
     (if line_num st < 50000000 then Inr (st\<lparr>line_num := line_num st + 1\<rparr>)
      else
        (let stripped = strip line in
           if stripped = [] then Inr st
           else if isdigit (hd stripped) then
             (case parse_pgn read_game (currgame st @ [stripped]) (max_ply cfg) of
                Inl e \<Rightarrow> Inl e
              | Inr f \<Rightarrow>
                  Inr (end_of_batch cfg (st\<lparr>game_batch := game_batch st @ [f], currgame := []\<rparr>)))
           else Inr (st\<lparr>currgame := currgame st @ [stripped]\<rparr>)))"

text \<open>
  Line 113: the loop over the lines of the input, a finite list (the run reaches the end
  of its input); an exception ends the run.
\<close>

fun main_loop ::
  "(string \<Rightarrow> game option) \<Rightarrow> config \<Rightarrow> loop_state \<Rightarrow> string list \<Rightarrow> error + loop_state" where
  "main_loop read_game cfg st [] = Inr st"
| "main_loop read_game cfg st (line # rest) =
     (case process_line read_game cfg st line of
        Inl e \<Rightarrow> Inl e
      | Inr st' \<Rightarrow> main_loop read_game cfg st' rest)"

text \<open>What a run leaves: the batch files, the schema file, and the printed lines.\<close>

record run_output =
  csv_files :: "(string \<times> dataframe) list"
  schema_file :: "string \<times> string"
  printed :: "string list"

text \<open>Lines 149 and 150: one name on each line.\<close>

definition schema_text :: "string list \<Rightarrow> string" where
  "schema_text names = concat (map (\<lambda>attribute. attribute @ [CHR 0x0A]) names)"

text \<open>
  Lines 139 to 151, after the loop.  A Python \<open>set\<close> of strings is iterated in an order
  that depends on the hash seed of the process: \<open>set_iter\<close> is \<open>list(schema_columns)\<close>, a
  parameter of the model.
\<close>

definition finalize :: "(string set \<Rightarrow> string list) \<Rightarrow> config \<Rightarrow> loop_state \<Rightarrow> run_output" where
  "finalize set_iter cfg st =
     (let file = export (game_batch st) (path_of cfg) (name_of cfg) (batchnum st);
          last_batch_columns = columns (snd file);
          final_size = length (rows (snd file));
          schema = schema_columns st \<union> set last_batch_columns;
          total_rows = (int (batchnum st) - 1) * batch_size cfg + int final_size
      in \<lparr>csv_files = files st @ [file],
          schema_file = (path_of cfg @ ''/'' @ name_of cfg @ ''_schema.txt'',
                         schema_text (sort (set_iter schema))),
          printed = stdout st @ report cfg (progress (batchnum st) total_rows)\<rparr>)"

definition batch_load_files_fromconsole ::
  "(string \<Rightarrow> game option) \<Rightarrow> (string set \<Rightarrow> string list) \<Rightarrow> config \<Rightarrow> string list
     \<Rightarrow> error + run_output" where
  "batch_load_files_fromconsole read_game set_iter cfg stdin =
     (case main_loop read_game cfg init_state stdin of
        Inl e \<Rightarrow> Inl e
      | Inr st \<Rightarrow> Inr (finalize set_iter cfg st))"

section \<open>Notions used in the statements\<close>

text \<open>
  The order in which a Python set is iterated is any enumeration of its elements without
  repetition.
\<close>

definition valid_iter :: "(string set \<Rightarrow> string list) \<Rightarrow> bool" where
  "valid_iter set_iter \<longleftrightarrow> (\<forall>S. finite S \<longrightarrow> set (set_iter S) = S \<and> distinct (set_iter S))"

text \<open>How line 118 and line 121 classify a line that is past the skipped ones.\<close>

definition movetext_line :: "string \<Rightarrow> bool" where
  "movetext_line line \<longleftrightarrow> strip line \<noteq> [] \<and> isdigit (hd (strip line))"

definition header_line :: "string \<Rightarrow> bool" where
  "header_line line \<longleftrightarrow> strip line \<noteq> [] \<and> \<not> isdigit (hd (strip line))"

text \<open>
  A well-formed record, as lines of the input: header lines, then one movetext line, and
  the extractor returns a feature dictionary for it.
\<close>

definition wf_record :: "(string \<Rightarrow> game option) \<Rightarrow> int \<Rightarrow> string list \<Rightarrow> bool" where
  "wf_record read_game M r \<longleftrightarrow>
     r \<noteq> [] \<and> (\<forall>line\<in>set (butlast r). header_line line) \<and> movetext_line (last r) \<and>
     (case parse_pgn read_game (map strip r) M of Inl e \<Rightarrow> False | Inr f \<Rightarrow> True)"

text \<open>
  The invariant of the loop: the ordinal counts the files written, every file written in
  the loop holds \<open>batch_size\<close> rows, and the schema set is the union of their columns.
\<close>

definition batch_inv :: "config \<Rightarrow> loop_state \<Rightarrow> bool" where
  "batch_inv cfg st \<longleftrightarrow>
     batchnum st = Suc (length (files st)) \<and>
     (\<forall>f\<in>set (files st). int (length (rows (snd f))) = batch_size cfg) \<and>
     schema_columns st = (\<Union>f\<in>set (files st). set (columns (snd f)))"

text \<open>The four fields of a ply, and the keys that the header lines assign.\<close>

definition fields :: "string list" where
  "fields = [''move'', ''timespent'', ''evalaftermove'', ''eval_is_mate'']"

definition line_keys :: "string list \<Rightarrow> string list" where
  "line_keys ls = concat (map (\<lambda>line. take 1 (str_split (strip_ends line))) ls)"

definition header_keys :: "string list \<Rightarrow> string list" where
  "header_keys lines = line_keys (butlast lines)"

text \<open>The evaluation annotation of a node denotes a forced mate.\<close>

definition mate_eval :: "game_node \<Rightarrow> bool" where
  "mate_eval node = (case node_eval node of None \<Rightarrow> False | Some e \<Rightarrow> is_mate e)"

text \<open>
  The fields that lines 43 to 48 assign for a node, and the keys that the passes after
  the header pass assign: \<open>Ply\<close> and, for each ply of the range, the keys of the fields of
  its node.
\<close>

definition node_fields :: "game_node \<Rightarrow> string list" where
  "node_fields node =
     [''move'', ''timespent''] @
     (if node_eval node = None then [] else [''evalaftermove'']) @
     (if mate_eval node then [''eval_is_mate''] else [])"

definition assigned_keys :: "game \<Rightarrow> int \<Rightarrow> string list" where
  "assigned_keys game M =
     ''Ply'' # concat (map (\<lambda>ply. map (ply_key ply) (node_fields (game ! (ply - 1))))
        (range1 (min (M + 1) (int (length game)))))"

text \<open>
  What lines 25 to 27 store for a quoted value: the tokens of the quoted text joined by
  single spaces, without the first and the last character.
\<close>

definition stored_value :: "string \<Rightarrow> string" where
  "stored_value v = strip_ends (str_join (str_split ([CHR 0x22] @ v @ [CHR 0x22])))"

text \<open>
  What one iteration of the loop over the plies leaves under the key of a field of its
  ply, given what was there before.
\<close>

definition ply_value :: "game_node \<Rightarrow> string \<Rightarrow> pyval option \<Rightarrow> pyval option" where
  "ply_value node field old =
     (if field = ''move'' then Some (VStr (node_uci node))
      else if field = ''timespent'' then Some (opt_val VFloat (node_clock node))
      else if field = ''evalaftermove'' then
        (case node_eval node of None \<Rightarrow> old
         | Some e \<Rightarrow> Some (opt_val VInt (score_score (white e))))
      else if field = ''eval_is_mate'' then (if mate_eval node then Some (VInt 1) else old)
      else old)"

text \<open>
  An annotated movetext line and the game that the rules engine reads from it: four
  plies, the third with a mate evaluation and no clock, the second with a clock and no
  evaluation.  After a move of White it is Black's turn, and the score of the annotation
  (from White's side) is stored negated.
\<close>

definition example_movetext :: string where
  "example_movetext =
     ''1. f3 { [%eval -0.5] [%clk 0:10:00] } 1... e5 { [%clk 0:09:58] } 2. g4 { [%eval #-1] } 2... Qh4# 0-1''"

definition example_game :: game where
  "example_game =
     [\<lparr>node_uci = ''f2f3'', node_clock = Some 600,
       node_eval = Some \<lparr>relative = Cp 50, turn = False\<rparr>\<rparr>,
      \<lparr>node_uci = ''e7e5'', node_clock = Some 598, node_eval = None\<rparr>,
      \<lparr>node_uci = ''g2g4'', node_clock = None,
       node_eval = Some \<lparr>relative = Mate 1, turn = False\<rparr>\<rparr>,
      \<lparr>node_uci = ''d8h4'', node_clock = None, node_eval = None\<rparr>]"

text \<open>A node without annotations.\<close>

definition plain_node :: "string \<Rightarrow> game_node" where
  "plain_node move = \<lparr>node_uci = move, node_clock = None, node_eval = None\<rparr>"

text \<open>A rules engine that knows three games, and a configuration.\<close>

definition example_read_game :: "string \<Rightarrow> game option" where
  "example_read_game movetext =
     (if movetext = example_movetext then Some example_game
      else if movetext = ''1. d4'' then Some [plain_node ''d2d4'']
      else if movetext = ''1. e4 e5'' then Some [plain_node ''e2e4'', plain_node ''e7e5'']
      else if movetext = [] then None
      else Some [])"

definition example_config :: config where
  "example_config = \<lparr>export_path = None, export_name = None, max_ply = 20, batch_size = 2,
     print_progress = True\<rparr>"

text \<open>The configuration with the progress lines switched off.\<close>

definition example_quiet_config :: config where
  "example_quiet_config = example_config\<lparr>print_progress := False\<rparr>"

text \<open>A record of the annotated game, and the features that the extractor returns for it.\<close>

definition example_record :: "string list" where
  "example_record = [''[Event \"Rated Blitz game\"]'', ''[Site \"x\"]'', example_movetext]"

definition example_features :: features where
  "example_features =
     [(''Event'', VStr ''Rated Blitz game''), (''Site'', VStr ''x''), (''Ply'', VInt 4),
      (''white_move1_move'', VStr ''f2f3''), (''white_move1_timespent'', VFloat 600),
      (''white_move1_evalaftermove'', VInt (- 50)),
      (''black_move1_move'', VStr ''e7e5''), (''black_move1_timespent'', VFloat 598),
      (''white_move2_move'', VStr ''g2g4''), (''white_move2_timespent'', VNone),
      (''white_move2_evalaftermove'', VNone), (''white_move2_eval_is_mate'', VInt 1)]"

section \<open>Properties\<close>

subsection \<open>Decimal numerals\<close>

lemma digit_char_inj: "a < 10 \<Longrightarrow> b < 10 \<Longrightarrow> digit_char a = digit_char b \<Longrightarrow> a = b"
proof -
  assume a: "a < 10" and b: "b < 10" and e: "digit_char a = digit_char b"
  have "distinct ''0123456789''" by simp
  moreover have "a < length ''0123456789''" "b < length ''0123456789''" using a b by simp_all
  ultimately show "a = b" using e unfolding digit_char_def
    by (simp only: nth_eq_iff_index_eq)
qed

lemma digit_char_digit: "d < 10 \<Longrightarrow> digit_char d \<in> set ''0123456789''"
  unfolding digit_char_def by (rule nth_mem) simp

lemma str_nat_digits: "c \<in> set (str_nat n) \<Longrightarrow> c \<in> set ''0123456789''"
proof (induction n rule: str_nat.induct)
  case (1 n)
  show ?case
  proof (cases "n < 10")
    case True
    with "1.prems" have "c = digit_char n" by (simp add: str_nat.simps [of n])
    with True digit_char_digit show ?thesis by blast
  next
    case False
    with "1.prems" have "c \<in> set (str_nat (n div 10)) \<or> c = digit_char (n mod 10)"
      by (auto simp: str_nat.simps [of n])
    moreover have "digit_char (n mod 10) \<in> set ''0123456789''"
      by (rule digit_char_digit) simp
    ultimately show ?thesis using "1.IH" False by blast
  qed
qed

lemma str_nat_nonempty: "str_nat n \<noteq> []"
  by (simp add: str_nat.simps [of n])

lemma str_nat_inj: "str_nat a = str_nat b \<Longrightarrow> a = b"
proof (induction a arbitrary: b rule: str_nat.induct)
  case (1 a)
  show ?case
  proof (cases "a < 10")
    case a: True
    show ?thesis
    proof (cases "b < 10")
      case True
      with a "1.prems" have "digit_char a = digit_char b"
        by (simp add: str_nat.simps [of a] str_nat.simps [of b])
      with a True show ?thesis by (rule digit_char_inj)
    next
      case False
      with a "1.prems" have "[digit_char a] = str_nat (b div 10) @ [digit_char (b mod 10)]"
        by (simp add: str_nat.simps [of a] str_nat.simps [of b])
      then have "str_nat (b div 10) = []" by simp
      with str_nat_nonempty show ?thesis by blast
    qed
  next
    case a: False
    show ?thesis
    proof (cases "b < 10")
      case True
      with a "1.prems" have "str_nat (a div 10) @ [digit_char (a mod 10)] = [digit_char b]"
        by (simp add: str_nat.simps [of a] str_nat.simps [of b])
      then have "str_nat (a div 10) = []" by simp
      with str_nat_nonempty show ?thesis by blast
    next
      case False
      with a "1.prems" have
        "str_nat (a div 10) @ [digit_char (a mod 10)] = str_nat (b div 10) @ [digit_char (b mod 10)]"
        by (simp add: str_nat.simps [of a] str_nat.simps [of b])
      then have e1: "str_nat (a div 10) = str_nat (b div 10)"
        and e2: "digit_char (a mod 10) = digit_char (b mod 10)" by simp_all
      from "1.IH" [OF a e1] have d: "a div 10 = b div 10" .
      have "a mod 10 = b mod 10" by (rule digit_char_inj [OF _ _ e2]) simp_all
      with d show ?thesis by (metis div_mult_mod_eq)
    qed
  qed
qed

lemma str_nat_1: "str_nat (Suc 0) = ''1''"
  by (simp add: str_nat.simps digit_char_def)

lemma str_nat_0: "str_nat 0 = ''0''"
  by (simp add: str_nat.simps digit_char_def)

subsection \<open>The names of the per-ply keys\<close>

lemma sep_unique:
  "CHR ''_'' \<notin> set a \<Longrightarrow> CHR ''_'' \<notin> set b \<Longrightarrow> a @ CHR ''_'' # f = b @ CHR ''_'' # g \<Longrightarrow>
     a = b \<and> f = g"
proof (induction a arbitrary: b)
  case Nil
  then show ?case by (cases b) auto
next
  case (Cons x a)
  then show ?case by (cases b) auto
qed

lemma underscore_not_digit: "CHR ''_'' \<notin> set (str_nat n)"
  using str_nat_digits [of "CHR ''_''" n] by auto

lemma player_movenum_inj: "player p = player q \<Longrightarrow> movenum p = movenum q \<Longrightarrow> p = q"
  unfolding player_def movenum_def by (auto split: if_splits) presburger+

lemma ply_key_inj: "ply_key p f = ply_key q g \<longleftrightarrow> p = q \<and> f = g"
proof
  assume e: "ply_key p f = ply_key q g"
  have len: "length (player p @ ''_move'') = length (player q @ ''_move'')"
    by (simp add: player_def)
  from e have "(player p @ ''_move'') @ (str_nat (movenum p) @ CHR ''_'' # f) =
      (player q @ ''_move'') @ (str_nat (movenum q) @ CHR ''_'' # g)"
    by (simp add: ply_key_def feature_name_def)
  with len have "player p @ ''_move'' = player q @ ''_move'' \<and>
      str_nat (movenum p) @ CHR ''_'' # f = str_nat (movenum q) @ CHR ''_'' # g"
    by (metis append_eq_append_conv)
  then have pl: "player p @ ''_move'' = player q @ ''_move''"
    and rest: "str_nat (movenum p) @ CHR ''_'' # f = str_nat (movenum q) @ CHR ''_'' # g"
    by blast+
  from sep_unique [OF underscore_not_digit underscore_not_digit rest]
  have "str_nat (movenum p) = str_nat (movenum q)" and fg: "f = g" by simp_all
  then have "movenum p = movenum q" by (simp add: str_nat_inj)
  moreover from pl have "player p = player q" by simp
  ultimately have "p = q" by (rule player_movenum_inj [rotated])
  with fg show "p = q \<and> f = g" by simp
next
  assume "p = q \<and> f = g"
  then show "ply_key p f = ply_key q g" by simp
qed

lemma ply_key_not_Ply: "ply_key p f \<noteq> ''Ply''"
  by (simp add: ply_key_def feature_name_def player_def)

subsection \<open>The header pass\<close>

lemma header_pass_empty_token:
  "line \<in> set ls \<Longrightarrow> str_split (strip_ends line) = [] \<Longrightarrow> header_pass ls fs = Inl IndexError"
proof (induction ls arbitrary: fs)
  case Nil
  then show ?case by simp
next
  case (Cons l ls)
  show ?case
  proof (cases "str_split (strip_ends l)")
    case Nil
    then show ?thesis by simp
  next
    case (Cons k vs)
    with Cons.prems have "line \<in> set ls" by auto
    with Cons.IH Cons.prems(2) Cons show ?thesis by simp
  qed
qed

lemma header_pass_other:
  "header_pass ls fs = Inr fs' \<Longrightarrow> k \<notin> set (line_keys ls) \<Longrightarrow> map_of fs' k = map_of fs k"
proof (induction ls arbitrary: fs)
  case Nil
  then show ?case by simp
next
  case (Cons l ls)
  show ?case
  proof (cases "str_split (strip_ends l)")
    case Nil
    with Cons.prems show ?thesis by simp
  next
    case (Cons key vs)
    with Cons.prems have
      run: "header_pass ls (AList.update key (VStr (strip_ends (str_join vs))) fs) = Inr fs'"
      and k: "k \<noteq> key" and rest: "k \<notin> set (line_keys ls)"
      by (auto simp: line_keys_def)
    from Cons.IH [OF run rest] k show ?thesis by (simp add: update_conv')
  qed
qed

lemma header_pass_at:
  "header_pass ls fs = Inr fs' \<Longrightarrow> i < length ls \<Longrightarrow>
   str_split (strip_ends (ls ! i)) = key # vs \<Longrightarrow> key \<notin> set (line_keys (drop (Suc i) ls)) \<Longrightarrow>
     map_of fs' key = Some (VStr (strip_ends (str_join vs)))"
proof (induction ls arbitrary: fs i)
  case Nil
  then show ?case by simp
next
  case (Cons l ls)
  show ?case
  proof (cases i)
    case 0
    with Cons.prems have sp: "str_split (strip_ends l) = key # vs"
      and rest: "key \<notin> set (line_keys ls)" by simp_all
    with Cons.prems(1) have
      run: "header_pass ls (AList.update key (VStr (strip_ends (str_join vs))) fs) = Inr fs'"
      by simp
    from header_pass_other [OF run rest] show ?thesis by (simp add: update_conv')
  next
    case (Suc j)
    from Cons.prems(1) obtain k' vs' where
      run: "header_pass ls (AList.update k' (VStr (strip_ends (str_join vs'))) fs) = Inr fs'"
      by (cases "str_split (strip_ends l)") auto
    from Cons.prems Suc have "j < length ls" "str_split (strip_ends (ls ! j)) = key # vs"
      "key \<notin> set (line_keys (drop (Suc j) ls))" by simp_all
    from Cons.IH [OF run this] show ?thesis .
  qed
qed

lemma split_from_word:
  "\<forall>c\<in>set w. \<not> isspace c \<Longrightarrow> split_from cur (w @ rest) = split_from (cur @ w) rest"
  by (induction w arbitrary: cur) simp_all

lemma str_split_key:
  assumes "key \<noteq> []" and "\<forall>c\<in>set key. \<not> isspace c"
  shows "str_split (key @ '' '' @ q) = key # str_split q"
proof -
  have "split_from [] (key @ (CHR '' '' # q)) = split_from ([] @ key) (CHR '' '' # q)"
    using assms(2) by (rule split_from_word)
  also have "\<dots> = key # split_from [] q"
    using assms(1) by (simp add: isspace_def)
  finally show ?thesis by (simp add: str_split_def)
qed

lemma strip_ends_wrapped: "strip_ends (a # s @ [b]) = s"
  by (simp add: strip_ends_def)

subsection \<open>The per-ply pass\<close>

lemma keys_map_of: "k \<in> keys fs \<longleftrightarrow> map_of fs k \<noteq> None"
  by (simp add: keys_def map_of_eq_None_iff)

lemma map_of_ply_features:
  "map_of (ply_features ply node fs) (ply_key q field) =
     (if q = ply then ply_value node field (map_of fs (ply_key q field))
      else map_of fs (ply_key q field))"
  by (auto simp: ply_features_def ply_value_def mate_eval_def Let_def update_conv' ply_key_inj
        split: option.splits)

lemma map_of_ply_features_other:
  "\<forall>f\<in>set fields. k \<noteq> ply_key ply f \<Longrightarrow> map_of (ply_features ply node fs) k = map_of fs k"
  by (auto simp: ply_features_def Let_def update_conv' fields_def split: option.splits)

lemma move_pass_total:
  "length plies \<le> length nodes \<Longrightarrow> \<exists>fs'. move_pass plies nodes fs = Inr fs'"
  by (induction plies nodes fs rule: move_pass.induct) auto

lemma move_pass_other:
  "move_pass plies nodes fs = Inr fs' \<Longrightarrow> \<forall>p\<in>set plies. \<forall>f\<in>set fields. k \<noteq> ply_key p f \<Longrightarrow>
     map_of fs' k = map_of fs k"
  by (induction plies nodes fs rule: move_pass.induct) (auto simp: map_of_ply_features_other)

lemma move_pass_absent:
  "move_pass plies nodes fs = Inr fs' \<Longrightarrow> q \<notin> set plies \<Longrightarrow>
     map_of fs' (ply_key q field) = map_of fs (ply_key q field)"
  by (rule move_pass_other) (auto simp: ply_key_inj)

lemma move_pass_at:
  "move_pass plies nodes fs = Inr fs' \<Longrightarrow> distinct plies \<Longrightarrow> i < length plies \<Longrightarrow>
     map_of fs' (ply_key (plies ! i) field) =
       ply_value (nodes ! i) field (map_of fs (ply_key (plies ! i) field))"
proof (induction plies nodes fs arbitrary: i rule: move_pass.induct)
  case (1 rest fs)
  then show ?case by simp
next
  case (2 ply plies fs)
  then show ?case by simp
next
  case (3 ply plies nextpos rest fs)
  from "3.prems" have run: "move_pass plies rest (ply_features ply nextpos fs) = Inr fs'"
    and d: "distinct plies" and notin: "ply \<notin> set plies" by simp_all
  show ?case
  proof (cases i)
    case 0
    from move_pass_absent [OF run notin]
    show ?thesis by (simp add: 0 map_of_ply_features)
  next
    case (Suc j)
    with "3.prems" have j: "j < length plies" by simp
    then have "plies ! j \<in> set plies" by simp
    with notin have ne: "plies ! j \<noteq> ply" by auto
    from "3.IH" [OF run d j, of ] ne show ?thesis
      by (simp add: Suc map_of_ply_features)
  qed
qed

lemma range1_set: "p \<in> set (range1 b) \<longleftrightarrow> 1 \<le> int p \<and> int p < b"
  by (auto simp: range1_def)

lemma range1_distinct: "distinct (range1 b)"
  by (simp add: range1_def)

lemma range1_length: "length (range1 (min (M + 1) (int n))) \<le> n"
  by (simp add: range1_def)

lemma range1_nth:
  "p \<in> set (range1 b) \<Longrightarrow> p - 1 < length (range1 b) \<and> range1 b ! (p - 1) = p"
  by (auto simp: range1_def)

lemma range1_bound:
  "p \<in> set (range1 (min (M + 1) (int n))) \<longleftrightarrow> 1 \<le> int p \<and> int p \<le> min M (int n - 1)"
  by (auto simp: range1_set)

subsection \<open>The extractor\<close>

lemma header_pass_total:
  "\<forall>line\<in>set ls. str_split (strip_ends line) \<noteq> [] \<Longrightarrow> \<exists>fs'. header_pass ls fs = Inr fs'"
proof (induction ls arbitrary: fs)
  case Nil
  then show ?case by simp
next
  case (Cons l ls)
  then obtain key vs where "str_split (strip_ends l) = key # vs"
    by (cases "str_split (strip_ends l)") auto
  with Cons show ?case by simp
qed

lemma parse_pgn_Inr:
  assumes "parse_pgn read_game lines M = Inr fs"
  obtains hs game where "header_pass (butlast lines) [] = Inr hs"
    and "read_game (last lines) = Some game"
    and "move_pass (range1 (min (M + 1) (int (length game)))) game
           (AList.update ''Ply'' (VInt (int (length game))) hs) = Inr fs"
  using assms
  by (auto simp: parse_pgn_def Let_def split: sum.splits if_splits option.splits)

text \<open>
  The extractor returns a dictionary whenever every header line has a token and the rules
  engine returns a game: the loop over the plies stops before the end of the main line.
\<close>

lemma parse_pgn_total:
  assumes "lines \<noteq> []" and "\<forall>line\<in>set (butlast lines). str_split (strip_ends line) \<noteq> []"
    and "read_game (last lines) = Some game"
  shows "\<exists>fs. parse_pgn read_game lines M = Inr fs"
proof -
  from header_pass_total [OF assms(2)] obtain hs where
    hp: "header_pass (butlast lines) [] = Inr hs" by blast
  have "length (range1 (min (M + 1) (int (length game)))) \<le> length game"
    by (rule range1_length)
  from move_pass_total [OF this] obtain fs where
    "move_pass (range1 (min (M + 1) (int (length game)))) game
       (AList.update ''Ply'' (VInt (int (length game))) hs) = Inr fs" by blast
  with hp assms(1,3) have "parse_pgn read_game lines M = Inr fs"
    by (simp add: parse_pgn_def)
  then show ?thesis by blast
qed

lemma header_pass_keys:
  "header_pass ls fs = Inr fs' \<Longrightarrow> keys fs' = keys fs \<union> set (line_keys ls)"
proof (induction ls arbitrary: fs)
  case Nil
  then show ?case by (simp add: line_keys_def)
next
  case (Cons l ls)
  show ?case
  proof (cases "str_split (strip_ends l)")
    case Nil
    with Cons.prems show ?thesis by simp
  next
    case (Cons key vs)
    with Cons.prems have
      run: "header_pass ls (AList.update key (VStr (strip_ends (str_join vs))) fs) = Inr fs'"
      by simp
    from Cons.IH [OF run] Cons show ?thesis
      by (auto simp: keys_def line_keys_def dom_update)
  qed
qed

lemma header_keys_keys:
  "header_pass (butlast lines) [] = Inr hs \<Longrightarrow> k \<in> keys hs \<longleftrightarrow> k \<in> set (header_keys lines)"
  using header_pass_keys [of "butlast lines" "[]" hs] by (simp add: header_keys_def keys_def)

lemma node_fields_fields: "f \<in> set (node_fields node) \<Longrightarrow> f \<in> set fields"
  by (auto simp: node_fields_def fields_def split: if_splits)

lemma ply_value_assigned:
  "f \<in> set (node_fields node) \<Longrightarrow> ply_value node f old = ply_value node f None"
  by (auto simp: node_fields_def ply_value_def mate_eval_def split: if_splits option.splits)

lemma ply_value_assigned_Some:
  "f \<in> set (node_fields node) \<Longrightarrow> ply_value node f None \<noteq> None"
  by (auto simp: node_fields_def ply_value_def mate_eval_def split: if_splits option.splits)

lemma ply_value_unassigned:
  "f \<notin> set (node_fields node) \<Longrightarrow> ply_value node f old = old"
  by (auto simp: node_fields_def ply_value_def mate_eval_def split: if_splits option.splits)

lemma parse_pgn_Inr_hs:
  assumes "parse_pgn read_game lines M = Inr fs"
    and "read_game (last lines) = Some game"
    and "header_pass (butlast lines) [] = Inr hs"
  shows "move_pass (range1 (min (M + 1) (int (length game)))) game
           (AList.update ''Ply'' (VInt (int (length game))) hs) = Inr fs"
  using assms by (auto elim: parse_pgn_Inr)

lemma parse_pgn_ply_key_gen:
  assumes "parse_pgn read_game lines M = Inr fs"
    and "read_game (last lines) = Some game"
    and "header_pass (butlast lines) [] = Inr hs"
  shows "map_of fs (ply_key p field) =
     (if 1 \<le> int p \<and> int p \<le> min M (int (length game) - 1)
      then ply_value (game ! (p - 1)) field (map_of hs (ply_key p field))
      else map_of hs (ply_key p field))"
proof -
  let ?plies = "range1 (min (M + 1) (int (length game)))"
  let ?fs1 = "AList.update ''Ply'' (VInt (int (length game))) hs"
  have mp: "move_pass ?plies game ?fs1 = Inr fs"
    using assms by (rule parse_pgn_Inr_hs)
  have base: "map_of ?fs1 (ply_key p field) = map_of hs (ply_key p field)"
    by (simp add: update_conv' ply_key_not_Ply)
  have rb: "p \<in> set ?plies \<longleftrightarrow> 1 \<le> int p \<and> int p \<le> min M (int (length game) - 1)"
    by (rule range1_bound)
  show ?thesis
  proof (cases "p \<in> set ?plies")
    case True
    from range1_nth [OF True] have i: "p - 1 < length ?plies" and n: "?plies ! (p - 1) = p"
      by simp_all
    from move_pass_at [OF mp range1_distinct i, of field] n base
    have eq: "map_of fs (ply_key p field) =
        ply_value (game ! (p - 1)) field (map_of hs (ply_key p field))" by simp
    from True rb have c: "1 \<le> int p \<and> int p \<le> min M (int (length game) - 1)"
      by blast
    show ?thesis unfolding if_P [OF c] by (rule eq)
  next
    case False
    from move_pass_absent [OF mp False, of field] base
    have eq: "map_of fs (ply_key p field) = map_of hs (ply_key p field)" by simp
    from False rb
    have c: "\<not> (1 \<le> int p \<and> int p \<le> min M (int (length game) - 1))"
      by blast
    show ?thesis unfolding if_not_P [OF c] by (rule eq)
  qed
qed

lemma example_parse: "parse_pgn example_read_game example_record 20 = Inr example_features"
  by code_simp

lemma example_game_read: "example_read_game (last example_record) = Some example_game"
  by (simp add: example_read_game_def example_record_def)

lemma assigned_keys_iff:
  "key \<in> set (assigned_keys game M) \<longleftrightarrow>
     key = ''Ply'' \<or>
     (\<exists>p\<in>set (range1 (min (M + 1) (int (length game)))).
        \<exists>f\<in>set (node_fields (game ! (p - 1))). key = ply_key p f)"
  by (auto simp: assigned_keys_def)

lemma stored_value_single:
  "str_join (str_split ([CHR 0x22] @ v @ [CHR 0x22])) = [CHR 0x22] @ v @ [CHR 0x22] \<Longrightarrow>
     stored_value v = v"
  unfolding stored_value_def using strip_ends_wrapped [of "CHR 0x22" v "CHR 0x22"] by simp

lemma example_headers:
  "header_pass (butlast example_record) [] =
     Inr [(''Event'', VStr ''Rated Blitz game''), (''Site'', VStr ''x'')]"
  by code_simp

text \<open>
  Claim C10.  The header pass is not total: a record with a header line that has no
  whitespace-delimited token left once its first and last characters are removed (the
  line \<open>*\<close> is one) makes \<open>parse_pgn\<close> raise \<open>IndexError\<close> at \<open>feature[0]\<close>; no feature
  dictionary is returned.
\<close>

theorem parse_pgn_empty_header_raises:
  "line \<in> set (butlast lines) \<Longrightarrow> str_split (strip_ends line) = [] \<Longrightarrow>
     parse_pgn read_game lines M = Inl IndexError"
  by (simp add: parse_pgn_def header_pass_empty_token)

theorem parse_pgn_empty_header_raises_witness:
  "parse_pgn example_read_game [''*'', ''1. e4 e5''] 20 = Inl IndexError"
  using parse_pgn_empty_header_raises [of "''*''" "[''*'', ''1. e4 e5'']" example_read_game 20]
  by (simp add: strip_ends_def str_split_def)

text \<open>
  Claim C4, as amended.  For a header line \<open>[Key "Value"]\<close> whose key is a non-empty token
  without whitespace and that is the last header line with this key: what the header
  pass stores is the value with its quotes stripped, after the whitespace-delimited
  tokens of the quoted text are joined by single spaces; it is the value character for
  character when the quoted text is unchanged by that splitting and joining.  The output
  holds it under the key unless a later pass assigns the key: \<open>Ply\<close> holds the ply count,
  and a key that the per-ply pass assigns for an analyzed ply holds that pass's value.
\<close>

theorem header_value_stored:
  assumes parse: "parse_pgn read_game lines M = Inr fs"
    and game: "read_game (last lines) = Some game"
    and i: "i < length lines - 1"
    and line: "lines ! i = ''['' @ key @ '' '' @ [CHR 0x22] @ v @ [CHR 0x22] @ '']''"
    and key: "key \<noteq> []" "\<forall>c\<in>set key. \<not> isspace c"
    and last: "key \<notin> set (line_keys (drop (Suc i) (butlast lines)))"
  shows "(str_join (str_split ([CHR 0x22] @ v @ [CHR 0x22])) = [CHR 0x22] @ v @ [CHR 0x22] \<longrightarrow>
            stored_value v = v) \<and>
         (key \<notin> set (assigned_keys game M) \<longrightarrow> map_of fs key = Some (VStr (stored_value v))) \<and>
         (key = ''Ply'' \<longrightarrow> map_of fs key = Some (VInt (int (length game)))) \<and>
         (\<forall>p field. 1 \<le> int p \<and> int p \<le> min M (int (length game) - 1) \<and>
            field \<in> set (node_fields (game ! (p - 1))) \<and> key = ply_key p field \<longrightarrow>
            map_of fs key = ply_value (game ! (p - 1)) field None)"
proof -
  let ?plies = "range1 (min (M + 1) (int (length game)))"
  let ?q = "[CHR 0x22] @ v @ [CHR 0x22]"
  let ?fs1 = "AList.update ''Ply'' (VInt (int (length game))) hs"
  from parse obtain hs where hp: "header_pass (butlast lines) [] = Inr hs"
    by (auto elim: parse_pgn_Inr)
  have mp: "move_pass ?plies game (AList.update ''Ply'' (VInt (int (length game))) hs) = Inr fs"
    using parse game hp by (rule parse_pgn_Inr_hs)
  from i have i': "i < length (butlast lines)" by simp
  then have nth: "butlast lines ! i = lines ! i" by (simp add: nth_butlast)
  have "strip_ends (lines ! i) = key @ '' '' @ ?q"
    using strip_ends_wrapped [of "CHR ''[''" "key @ '' '' @ ?q" "CHR '']''"] by (simp add: line)
  then have sp: "str_split (strip_ends (butlast lines ! i)) = key # str_split ?q"
    using str_split_key [OF key] nth by simp
  from header_pass_at [OF hp i' sp last]
  have h: "map_of hs key = Some (VStr (stored_value v))" by (simp add: stored_value_def)
  have rb: "p \<in> set ?plies \<longleftrightarrow> 1 \<le> int p \<and> int p \<le> min M (int (length game) - 1)" for p
    by (rule range1_bound)
  have ply: "map_of fs key = ply_value (game ! (p - 1)) field (Some (VStr (stored_value v)))"
    if "p \<in> set ?plies" and "key = ply_key p field" for p field
    using parse_pgn_ply_key_gen [OF parse game hp, of p field] that h rb [of p] by simp
  have c1: "str_join (str_split ?q) = ?q \<longrightarrow> stored_value v = v"
    using stored_value_single by blast
  have c2: "map_of fs key = Some (VStr (stored_value v))" if na: "key \<notin> set (assigned_keys game M)"
  proof (cases "\<exists>p\<in>set ?plies. \<exists>f\<in>set fields. key = ply_key p f")
    case True
    then obtain p f where p: "p \<in> set ?plies" and k: "key = ply_key p f" by blast
    from na p k have "f \<notin> set (node_fields (game ! (p - 1)))"
      by (auto simp: assigned_keys_iff)
    with ply [OF p k] show ?thesis by (simp add: ply_value_unassigned)
  next
    case False
    then have other: "\<forall>p\<in>set ?plies. \<forall>f\<in>set fields. key \<noteq> ply_key p f" by blast
    from na have "key \<noteq> ''Ply''" by (auto simp: assigned_keys_iff)
    with move_pass_other [OF mp other] h show ?thesis by (simp add: update_conv')
  qed
  have c3: "map_of fs key = Some (VInt (int (length game)))" if k: "key = ''Ply''"
  proof -
    have other: "\<forall>p\<in>set ?plies. \<forall>f\<in>set fields. key \<noteq> ply_key p f"
      using k ply_key_not_Ply by metis
    from move_pass_other [OF mp other] k show ?thesis by (simp add: update_conv')
  qed
  have c4: "map_of fs key = ply_value (game ! (p - 1)) field None"
    if "1 \<le> int p \<and> int p \<le> min M (int (length game) - 1)"
      and "field \<in> set (node_fields (game ! (p - 1)))" and "key = ply_key p field" for p field
    using ply [of p field] that rb [of p] ply_value_assigned [of field "game ! (p - 1)"]
    by simp
  from c1 c2 c3 c4 show ?thesis by blast
qed

theorem header_value_stored_witness:
  "map_of example_features ''Event'' = Some (VStr ''Rated Blitz game'') \<and>
   map_of [(''Ply'', VInt 4)] ''Ply'' = Some (VInt (int (length example_game))) \<and>
   map_of [(''white_move1_move'', VStr ''f2f3''), (''Ply'', VInt 4),
           (''white_move1_timespent'', VFloat 600), (''white_move1_evalaftermove'', VInt (- 50))]
     ''white_move1_move'' = ply_value (example_game ! (1 - 1)) ''move'' None"
proof -
  have "(str_join (str_split ([CHR 0x22] @ ''Rated Blitz game'' @ [CHR 0x22])) =
           [CHR 0x22] @ ''Rated Blitz game'' @ [CHR 0x22] \<longrightarrow>
         stored_value ''Rated Blitz game'' = ''Rated Blitz game'') \<and>
        (''Event'' \<notin> set (assigned_keys example_game 20) \<longrightarrow>
         map_of example_features ''Event'' = Some (VStr (stored_value ''Rated Blitz game'')))"
    using header_value_stored [where lines = example_record and i = 0 and read_game = example_read_game
        and M = 20 and game = example_game and fs = example_features and key = "''Event''"
        and v = "''Rated Blitz game''", OF example_parse example_game_read]
    by (simp add: example_record_def isspace_def line_keys_def strip_ends_def str_split_def)
  moreover have "str_join (str_split ([CHR 0x22] @ ''Rated Blitz game'' @ [CHR 0x22])) =
      [CHR 0x22] @ ''Rated Blitz game'' @ [CHR 0x22]"
    by code_simp
  moreover have "''Event'' \<notin> set (assigned_keys example_game 20)"
    by code_simp
  ultimately have a: "map_of example_features ''Event'' = Some (VStr ''Rated Blitz game'')"
    by simp
  have p1: "parse_pgn example_read_game [''[Ply \"7\"]'', example_movetext] 0 =
      Inr [(''Ply'', VInt 4)]"
    by code_simp
  have g: "example_read_game (last [x, example_movetext]) = Some example_game" for x
    by (simp add: example_read_game_def)
  have b: "map_of [(''Ply'', VInt 4)] ''Ply'' = Some (VInt (int (length example_game)))"
    using header_value_stored [where lines = "[''[Ply \"7\"]'', example_movetext]" and i = 0
        and M = 0 and key = "''Ply''" and v = "''7''", OF p1 g]
    by (simp add: isspace_def line_keys_def)
  have p2: "parse_pgn example_read_game [''[white_move1_move \"x\"]'', example_movetext] 1 =
      Inr [(''white_move1_move'', VStr ''f2f3''), (''Ply'', VInt 4),
           (''white_move1_timespent'', VFloat 600), (''white_move1_evalaftermove'', VInt (- 50))]"
    by code_simp
  have k: "ply_key 1 ''move'' = ''white_move1_move''" by code_simp
  have r: "1 \<le> int 1 \<and> int 1 \<le> min 1 (int (length example_game) - 1) \<and>
      ''move'' \<in> set (node_fields (example_game ! (1 - 1)))"
    by code_simp
  have "\<forall>p field. 1 \<le> int p \<and> int p \<le> min 1 (int (length example_game) - 1) \<and>
            field \<in> set (node_fields (example_game ! (p - 1))) \<and>
            ''white_move1_move'' = ply_key p field \<longrightarrow>
            map_of [(''white_move1_move'', VStr ''f2f3''), (''Ply'', VInt 4),
              (''white_move1_timespent'', VFloat 600),
              (''white_move1_evalaftermove'', VInt (- 50))] ''white_move1_move'' =
            ply_value (example_game ! (p - 1)) field None"
    using header_value_stored [where lines = "[''[white_move1_move \"x\"]'', example_movetext]"
        and i = 0 and M = 1 and key = "''white_move1_move''" and v = "''x''", OF p2 g]
    by (simp add: isspace_def line_keys_def) blast
  with r k have c: "map_of [(''white_move1_move'', VStr ''f2f3''), (''Ply'', VInt 4),
           (''white_move1_timespent'', VFloat 600), (''white_move1_evalaftermove'', VInt (- 50))]
     ''white_move1_move'' = ply_value (example_game ! (1 - 1)) ''move'' None"
    by metis
  from a b c show ?thesis by (intro conjI)
qed

text \<open>
  The claim as it was stated fails: a run of whitespace inside a value is stored as one
  space, a header line with the key \<open>Ply\<close> is overwritten by the ply count, and a header
  line with the key of a move of an analyzed ply is overwritten by the move.
\<close>

theorem header_value_counterexample:
  "parse_pgn example_read_game [''[Event \"Rated  Blitz game\"]'', example_movetext] 0 =
     Inr [(''Event'', VStr ''Rated Blitz game''), (''Ply'', VInt 4)] \<and>
   VStr ''Rated Blitz game'' \<noteq> VStr ''Rated  Blitz game'' \<and>
   parse_pgn example_read_game [''[Ply \"7\"]'', example_movetext] 0 = Inr [(''Ply'', VInt 4)] \<and>
   parse_pgn example_read_game [''[white_move1_move \"x\"]'', example_movetext] 1 =
     Inr [(''white_move1_move'', VStr ''f2f3''), (''Ply'', VInt 4),
          (''white_move1_timespent'', VFloat 600), (''white_move1_evalaftermove'', VInt (- 50))]"
  by code_simp

text \<open>
  Claim C1, as amended.  For a game of \<open>P\<close> plies and a cap \<open>M\<close>, the output holds the
  \<open>move\<close> and \<open>timespent\<close> keys of every ply \<open>i\<close> from 1 to \<open>min(M, P - 1)\<close>; for an \<open>i\<close>
  outside this range it holds a key of ply \<open>i\<close> exactly when a header line of the record
  has that key.
\<close>

theorem per_ply_keys_range:
  assumes "parse_pgn read_game lines M = Inr fs"
    and "read_game (last lines) = Some game"
  shows "(1 \<le> int i \<and> int i \<le> min M (int (length game) - 1) \<longrightarrow>
            ply_key i ''move'' \<in> keys fs \<and> ply_key i ''timespent'' \<in> keys fs) \<and>
         (\<not> (1 \<le> int i \<and> int i \<le> min M (int (length game) - 1)) \<longrightarrow>
            (ply_key i field \<in> keys fs \<longleftrightarrow> ply_key i field \<in> set (header_keys lines)))"
proof -
  from assms(1) obtain hs where hs: "header_pass (butlast lines) [] = Inr hs"
    by (auto elim: parse_pgn_Inr)
  define c where "c \<longleftrightarrow> 1 \<le> int i \<and> int i \<le> min M (int (length game) - 1)"
  have v: "map_of fs (ply_key i f) =
     (if c then ply_value (game ! (i - 1)) f (map_of hs (ply_key i f))
      else map_of hs (ply_key i f))" for f
    unfolding c_def using assms hs by (rule parse_pgn_ply_key_gen)
  have a: "c \<longrightarrow> ply_key i ''move'' \<in> keys fs \<and> ply_key i ''timespent'' \<in> keys fs"
    using v [of "''move''"] v [of "''timespent''"]
    by (simp add: keys_map_of ply_value_def)
  have b: "\<not> c \<longrightarrow> (ply_key i field \<in> keys fs \<longleftrightarrow> ply_key i field \<in> set (header_keys lines))"
    using v [of field] header_keys_keys [OF hs, of "ply_key i field"]
    by (simp add: keys_map_of)
  from a b show ?thesis unfolding c_def by blast
qed

theorem per_ply_keys_range_witness:
  "''white_move2_move'' \<in> keys example_features \<and>
   ''white_move2_timespent'' \<in> keys example_features \<and>
   ''black_move2_move'' \<notin> keys example_features"
proof -
  have b: "1 \<le> int 3 \<and> int 3 \<le> min 20 (int (length example_game) - 1)"
       "\<not> (1 \<le> int 4 \<and> int 4 \<le> min 20 (int (length example_game) - 1))"
    by code_simp+
  have k: "ply_key 3 ''move'' = ''white_move2_move''"
     "ply_key 3 ''timespent'' = ''white_move2_timespent''"
     "ply_key 4 ''move'' = ''black_move2_move''"
    by code_simp+
  have h: "''black_move2_move'' \<notin> set (header_keys example_record)" by code_simp
  from per_ply_keys_range [OF example_parse example_game_read, of 3] b(1) k
  have "''white_move2_move'' \<in> keys example_features \<and>
        ''white_move2_timespent'' \<in> keys example_features" by simp
  moreover from per_ply_keys_range [OF example_parse example_game_read, of 4 "''move''"] b(2) k h
  have "''black_move2_move'' \<notin> keys example_features" by simp
  ultimately show ?thesis by simp
qed

text \<open>
  The claim as it was stated fails: with a header line whose key is the name of the move
  of ply 2, a game of two plies leaves that key in the output, for the cap 20 (where
  \<open>min(M, P - 1) = 1\<close>) and for the cap 0.
\<close>

theorem per_ply_keys_header_counterexample:
  "parse_pgn example_read_game [''[black_move1_move \"q\"]'', ''1. e4 e5''] 20 =
     Inr [(''black_move1_move'', VStr ''q''), (''Ply'', VInt 2),
          (''white_move1_move'', VStr ''e2e4''), (''white_move1_timespent'', VNone)] \<and>
   parse_pgn example_read_game [''[black_move1_move \"q\"]'', ''1. e4 e5''] 0 =
     Inr [(''black_move1_move'', VStr ''q''), (''Ply'', VInt 2)] \<and>
   ply_key 2 ''move'' = ''black_move1_move'' \<and>
   min 20 (int (length [plain_node ''e2e4'', plain_node ''e7e5'']) - 1) = 1"
  by code_simp

text \<open>
  Claim C2, as amended.  For an analyzed ply the key \<open>{player}_move{N}_eval_is_mate\<close> holds
  the value 1 (Python's true) when the evaluation annotation of the ply denotes a forced
  mate.  For every other analyzed ply, annotated or not, the key is absent, unless a
  header line of the record has this key: then it is present, with what the header pass
  stored.
\<close>

theorem eval_is_mate_presence:
  assumes "parse_pgn read_game lines M = Inr fs"
    and "read_game (last lines) = Some game"
    and "header_pass (butlast lines) [] = Inr hs"
    and "1 \<le> i" and "int i \<le> min M (int (length game) - 1)"
  shows "(mate_eval (game ! (i - 1)) \<longrightarrow>
            map_of fs (ply_key i ''eval_is_mate'') = Some (VInt 1)) \<and>
         (\<not> mate_eval (game ! (i - 1)) \<and>
            ply_key i ''eval_is_mate'' \<notin> set (header_keys lines) \<longrightarrow>
            map_of fs (ply_key i ''eval_is_mate'') = None) \<and>
         (\<not> mate_eval (game ! (i - 1)) \<and>
            ply_key i ''eval_is_mate'' \<in> set (header_keys lines) \<longrightarrow>
            map_of fs (ply_key i ''eval_is_mate'') = map_of hs (ply_key i ''eval_is_mate'') \<and>
            map_of hs (ply_key i ''eval_is_mate'') \<noteq> None)"
  using parse_pgn_ply_key_gen [OF assms(1,2,3), of i "''eval_is_mate''"] assms(4,5)
    header_keys_keys [OF assms(3), of "ply_key i ''eval_is_mate''"]
  by (auto simp: ply_value_def keys_map_of)

theorem eval_is_mate_presence_witness:
  "map_of example_features ''white_move2_eval_is_mate'' = Some (VInt 1) \<and>
   map_of example_features ''white_move1_eval_is_mate'' = None \<and>
   map_of example_features ''black_move1_eval_is_mate'' = None"
proof -
  have b: "int 3 \<le> min 20 (int (length example_game) - 1)"
       "int 1 \<le> min 20 (int (length example_game) - 1)"
       "int 2 \<le> min 20 (int (length example_game) - 1)"
    by code_simp+
  have h: "ply_key 1 ''eval_is_mate'' \<notin> set (header_keys example_record)"
       "ply_key 2 ''eval_is_mate'' \<notin> set (header_keys example_record)"
    by code_simp+
  have m: "mate_eval (example_game ! (3 - 1))" "\<not> mate_eval (example_game ! (1 - 1))"
       "\<not> mate_eval (example_game ! (2 - 1))"
    by code_simp+
  have k: "ply_key 3 ''eval_is_mate'' = ''white_move2_eval_is_mate''"
     "ply_key 1 ''eval_is_mate'' = ''white_move1_eval_is_mate''"
     "ply_key 2 ''eval_is_mate'' = ''black_move1_eval_is_mate''"
    by code_simp+
  from eval_is_mate_presence [OF example_parse example_game_read example_headers _ b(1)]
    eval_is_mate_presence [OF example_parse example_game_read example_headers _ b(2)]
    eval_is_mate_presence [OF example_parse example_game_read example_headers _ b(3)] m h k
  show ?thesis by simp
qed

text \<open>
  The claim as it was stated fails: the first ply of the example game is annotated and
  not a mate, and with a header line of that key the key is present, with the header's
  text.
\<close>

theorem eval_is_mate_header_counterexample:
  "parse_pgn example_read_game [''[white_move1_eval_is_mate \"False\"]'', example_movetext] 1 =
     Inr [(''white_move1_eval_is_mate'', VStr ''False''), (''Ply'', VInt 4),
          (''white_move1_move'', VStr ''f2f3''), (''white_move1_timespent'', VFloat 600),
          (''white_move1_evalaftermove'', VInt (- 50))] \<and>
   example_read_game example_movetext = Some example_game \<and>
   \<not> mate_eval (example_game ! 0) \<and>
   ply_key 1 ''eval_is_mate'' = ''white_move1_eval_is_mate''"
  by code_simp

text \<open>
  Claim C3, as amended.  For an analyzed ply the key \<open>{player}_move{N}_timespent\<close> is
  always present: line 44 assigns it whatever \<open>clock()\<close> returns, so its value is the clock
  reading, and \<open>None\<close> when the game carries no clock annotation for the ply.
\<close>

theorem timespent_always_present:
  assumes "parse_pgn read_game lines M = Inr fs"
    and "read_game (last lines) = Some game"
    and "1 \<le> i" and "int i \<le> min M (int (length game) - 1)"
  shows "map_of fs (ply_key i ''timespent'') =
     Some (opt_val VFloat (node_clock (game ! (i - 1))))"
proof -
  let ?plies = "range1 (min (M + 1) (int (length game)))"
  from assms(1,2) obtain hs where
    mp: "move_pass ?plies game (AList.update ''Ply'' (VInt (int (length game))) hs) = Inr fs"
    by (auto elim: parse_pgn_Inr)
  from assms(3,4) have True: "i \<in> set ?plies" by (simp add: range1_bound)
  from range1_nth [OF True] have i: "i - 1 < length ?plies" and n: "?plies ! (i - 1) = i"
    by simp_all
  from move_pass_at [OF mp range1_distinct i, of "''timespent''"] n show ?thesis
    by (simp add: ply_value_def)
qed

theorem timespent_always_present_witness:
  "map_of example_features ''white_move2_timespent'' = Some VNone"
proof -
  have "(1::nat) \<le> 3" by simp
  moreover have "int 3 \<le> min 20 (int (length example_game) - 1)"
    by code_simp
  ultimately have "map_of example_features (ply_key 3 ''timespent'') =
     Some (opt_val VFloat (node_clock (example_game ! (3 - 1))))"
    by (rule timespent_always_present [OF example_parse example_game_read])
  moreover have "ply_key 3 ''timespent'' = ''white_move2_timespent''" by code_simp
  moreover have "opt_val VFloat (node_clock (example_game ! (3 - 1))) = VNone"
    by code_simp
  ultimately show ?thesis by simp
qed

text \<open>
  The claim as it was stated fails: the third ply of the example game has no clock
  annotation, and the key is present, with the value \<open>None\<close>.
\<close>

theorem timespent_null_counterexample:
  "example_read_game (last example_record) = Some example_game \<and>
   node_clock (example_game ! 2) = None \<and>
   parse_pgn example_read_game example_record 20 = Inr example_features \<and>
   map_of example_features ''white_move2_timespent'' = Some VNone \<and>
   ''white_move2_timespent'' \<in> keys example_features"
  by code_simp

subsection \<open>The skipped lines\<close>

lemma main_loop_append:
  "main_loop rg cfg st (xs @ ys) =
     (case main_loop rg cfg st xs of Inl e \<Rightarrow> Inl e | Inr st' \<Rightarrow> main_loop rg cfg st' ys)"
  by (induction xs arbitrary: st) (auto split: sum.splits)

lemma main_loop_skip:
  "line_num st + length ls \<le> 50000000 \<Longrightarrow>
     main_loop rg cfg st ls = Inr (st\<lparr>line_num := line_num st + length ls\<rparr>)"
proof (induction ls arbitrary: st)
  case Nil
  then show ?case by simp
next
  case (Cons l ls)
  from Cons.prems have lt: "line_num st < 50000000" by simp
  then have step: "process_line rg cfg st l = Inr (st\<lparr>line_num := line_num st + 1\<rparr>)"
    by (simp add: process_line_def)
  from Cons.prems have "line_num (st\<lparr>line_num := line_num st + 1\<rparr>) + length ls \<le> 50000000"
    by simp
  from Cons.IH [OF this] step show ?case by simp
qed

lemma main_loop_skipped:
  assumes "length skipped = 50000000"
  shows "main_loop rg cfg init_state (skipped @ rest) =
         main_loop rg cfg (init_state\<lparr>line_num := 50000000\<rparr>) rest"
proof -
  have "line_num init_state + length skipped \<le> 50000000"
    using assms by (simp add: init_state_def)
  from main_loop_skip [OF this] assms show ?thesis
    by (simp add: main_loop_append init_state_def)
qed

text \<open>Nothing catches what the extractor raises: the run ends with it.\<close>

lemma parse_error_ends_run:
  assumes "50000000 \<le> line_num st" and "movetext_line line"
    and "parse_pgn rg (currgame st @ [strip line]) (max_ply cfg) = Inl e"
  shows "main_loop rg cfg st (line # rest) = Inl e"
  using assms by (simp add: process_line_def movetext_line_def)

lemma valid_iter_empty: "valid_iter set_iter \<Longrightarrow> set_iter {} = []"
  unfolding valid_iter_def using finite.emptyI by (metis set_empty)

lemma valid_iter_sorted: "valid_iter sorted_list_of_set"
  by (simp add: valid_iter_def)

lemma sort_valid_iter:
  assumes "valid_iter set_iter" and "finite S"
  shows "sort (set_iter S) = sorted_list_of_set S"
proof -
  from assms have s: "set (set_iter S) = S" and d: "distinct (set_iter S)"
    by (simp_all add: valid_iter_def)
  have "sorted_list_of_set (set (set_iter S)) = sort (remdups (set_iter S))"
    by (rule sorted_list_of_set_sort_remdups)
  with s d show ?thesis by (simp add: distinct_remdups_id)
qed

text \<open>
  Claim C9.  The first 50,000,000 lines are skipped whatever they hold: on an input of at
  most 50,000,000 lines the loop only counts lines (no line reaches the record buffer or
  a batch), and the run writes one batch file, of ordinal 1 and with no rows, and a
  schema file with no names.
\<close>

theorem skip_consumes_short_stream:
  assumes "length stdin \<le> 50000000" and "valid_iter set_iter"
  shows "main_loop read_game cfg init_state stdin =
           Inr (init_state\<lparr>line_num := length stdin\<rparr>) \<and>
         batch_load_files_fromconsole read_game set_iter cfg stdin =
           Inr \<lparr>csv_files = [(path_of cfg @ ''/'' @ name_of cfg @ ''_batch1.csv'',
                              \<lparr>columns = [], rows = []\<rparr>)],
                schema_file = (path_of cfg @ ''/'' @ name_of cfg @ ''_schema.txt'', []),
                printed = (if print_progress cfg
                           then [''1 batches exported (0 total rows)''] else [])\<rparr>"
proof -
  have "line_num init_state + length stdin \<le> 50000000"
    using assms(1) by (simp add: init_state_def)
  from main_loop_skip [OF this]
  have loop: "main_loop read_game cfg init_state stdin =
      Inr (init_state\<lparr>line_num := length stdin\<rparr>)"
    by (simp add: init_state_def)
  have fin: "finalize set_iter cfg (init_state\<lparr>line_num := length stdin\<rparr>) =
       \<lparr>csv_files = [(path_of cfg @ ''/'' @ name_of cfg @ ''_batch1.csv'',
                      \<lparr>columns = [], rows = []\<rparr>)],
        schema_file = (path_of cfg @ ''/'' @ name_of cfg @ ''_schema.txt'', []),
        printed = (if print_progress cfg
                   then [''1 batches exported (0 total rows)''] else [])\<rparr>"
    using valid_iter_empty [OF assms(2)]
    by (simp add: finalize_def init_state_def export_def DataFrame_def first_seen_def csv_name_def
         str_nat_1 str_nat_0 schema_text_def progress_def str_int_def report_def)
  show ?thesis using loop fin by (simp add: batch_load_files_fromconsole_def)
qed

theorem skip_consumes_short_stream_witness:
  "main_loop example_read_game example_config init_state
     [''[Event \"x\"]'', example_movetext] = Inr (init_state\<lparr>line_num := 2\<rparr>) \<and>
   batch_load_files_fromconsole example_read_game sorted_list_of_set example_config
     [''[Event \"x\"]'', example_movetext] =
     Inr \<lparr>csv_files = [(''./lichess_games_batch1.csv'', \<lparr>columns = [], rows = []\<rparr>)],
          schema_file = (''./lichess_games_schema.txt'', []),
          printed = [''1 batches exported (0 total rows)'']\<rparr>"
  using skip_consumes_short_stream [of "[''[Event \"x\"]'', example_movetext]"
      sorted_list_of_set example_read_game example_config] valid_iter_sorted
  by (simp add: path_of_def name_of_def example_config_def)

subsection \<open>The invariant of the loop\<close>

lemma end_of_batch_inv: "batch_inv cfg st \<Longrightarrow> batch_inv cfg (end_of_batch cfg st)"
  by (auto simp: batch_inv_def end_of_batch_def export_def DataFrame_def Let_def)

lemma process_line_inv:
  assumes "batch_inv cfg st" and "process_line rg cfg st line = Inr st'"
  shows "batch_inv cfg st'"
proof -
  have upd: "\<And>b c. batch_inv cfg (st\<lparr>game_batch := b, currgame := c\<rparr>)"
    using assms(1) by (simp add: batch_inv_def)
  have upd2: "\<And>c. batch_inv cfg (st\<lparr>currgame := c\<rparr>)"
    using assms(1) by (simp add: batch_inv_def)
  have upd3: "\<And>n. batch_inv cfg (st\<lparr>line_num := n\<rparr>)"
    using assms(1) by (simp add: batch_inv_def)
  from assms(2) show ?thesis
    using upd upd2 upd3 assms(1) end_of_batch_inv
    by (auto simp: process_line_def Let_def split: if_splits sum.splits)
qed

lemma main_loop_inv:
  "batch_inv cfg st \<Longrightarrow> main_loop rg cfg st ls = Inr st' \<Longrightarrow> batch_inv cfg st'"
proof (induction ls arbitrary: st)
  case Nil
  then show ?case by simp
next
  case (Cons l ls)
  from Cons.prems(2) obtain st1 where
    s1: "process_line rg cfg st l = Inr st1" and s2: "main_loop rg cfg st1 ls = Inr st'"
    by (auto split: sum.splits)
  from process_line_inv [OF Cons.prems(1) s1] have "batch_inv cfg st1" .
  from Cons.IH [OF this s2] show ?case .
qed

lemma batch_inv_init: "batch_inv cfg init_state"
  by (simp add: batch_inv_def init_state_def)


lemma full_batches_rows:
  "\<forall>f\<in>set fs. int (length (rows (snd f))) = b \<Longrightarrow>
     int (sum_list (map (\<lambda>f. length (rows (snd f))) fs)) = int (length fs) * b"
  by (induction fs) (auto simp: algebra_simps)

lemma batch_inv_rows:
  "batch_inv cfg st \<Longrightarrow>
     int (sum_list (map (\<lambda>f. length (rows (snd f))) (files st))) =
       (int (batchnum st) - 1) * batch_size cfg"
  using full_batches_rows [of "files st" "batch_size cfg"] by (simp add: batch_inv_def)

lemmas eval_defs = process_line_def strip_def isspace_def isdigit_def Let_def init_state_def
  example_config_def end_of_batch_def export_def parse_pgn_def example_read_game_def
  example_movetext_def plain_node_def example_game_def strip_ends_def str_split_def
  range1_def ply_features_def ply_key_def feature_name_def player_def movenum_def
  str_nat.simps digit_char_def opt_val_def white_def is_mate_def upt_rec DataFrame_def

lemma process_line_quiet:
  assumes "\<not> print_progress cfg" and "stdout st = []"
    and "process_line rg cfg st line = Inr st'"
  shows "stdout st' = []"
  using assms
  by (auto simp: process_line_def end_of_batch_def report_def Let_def
      split: if_splits sum.splits)

lemma main_loop_quiet:
  "\<not> print_progress cfg \<Longrightarrow> stdout st = [] \<Longrightarrow> main_loop rg cfg st ls = Inr st' \<Longrightarrow>
     stdout st' = []"
proof (induction ls arbitrary: st)
  case Nil
  then show ?case by simp
next
  case (Cons l ls)
  from Cons.prems(3) obtain st1 where
    s1: "process_line rg cfg st l = Inr st1" and s2: "main_loop rg cfg st1 ls = Inr st'"
    by (auto split: sum.splits)
  from process_line_quiet [OF Cons.prems(1,2) s1] have "stdout st1 = []" .
  from Cons.IH [OF Cons.prems(1) this s2] show ?case .
qed

text \<open>
  Claim C6, as amended.  When the loop has reached the end of the input, exactly one more
  batch file is written, from the batch as it then is, also when that batch is empty.
  The files written are then as many as the final ordinal, and the total
  (final ordinal - 1) * capacity + size of the last batch is the number of rows of all the
  files.  The total is not returned: it is printed, in the last line, when
  \<open>print_progress\<close> is set, and nothing at all is printed when it is not.
\<close>

theorem finalize_emits_once_more:
  assumes "main_loop read_game cfg init_state stdin = Inr st"
  shows "\<exists>out. batch_load_files_fromconsole read_game set_iter cfg stdin = Inr out \<and>
     csv_files out = files st @
       [(csv_name (path_of cfg) (name_of cfg) (batchnum st), DataFrame (game_batch st))] \<and>
     length (csv_files out) = batchnum st \<and>
     int (sum_list (map (\<lambda>f. length (rows (snd f))) (csv_files out))) =
       (int (batchnum st) - 1) * batch_size cfg + int (length (game_batch st)) \<and>
     printed out = stdout st @
       (if print_progress cfg
        then [progress (batchnum st)
                ((int (batchnum st) - 1) * batch_size cfg + int (length (game_batch st)))]
        else []) \<and>
     (\<not> print_progress cfg \<longrightarrow> printed out = [])"
proof -
  let ?out = "finalize set_iter cfg st"
  from main_loop_inv [OF batch_inv_init assms] have inv: "batch_inv cfg st" .
  have run: "batch_load_files_fromconsole read_game set_iter cfg stdin = Inr ?out"
    using assms by (simp add: batch_load_files_fromconsole_def)
  have a: "csv_files ?out = files st @
       [(csv_name (path_of cfg) (name_of cfg) (batchnum st), DataFrame (game_batch st))]"
    by (simp add: finalize_def export_def Let_def)
  have b: "length (csv_files ?out) = batchnum st"
    using inv by (simp add: a batch_inv_def)
  have c: "int (sum_list (map (\<lambda>f. length (rows (snd f))) (csv_files ?out))) =
       (int (batchnum st) - 1) * batch_size cfg + int (length (game_batch st))"
    using batch_inv_rows [OF inv] by (simp add: a DataFrame_def)
  have d: "printed ?out = stdout st @
       (if print_progress cfg
        then [progress (batchnum st)
                ((int (batchnum st) - 1) * batch_size cfg + int (length (game_batch st)))]
        else [])"
    by (simp add: finalize_def export_def Let_def DataFrame_def report_def)
  have "stdout st = []" if "\<not> print_progress cfg"
    using that _ assms by (rule main_loop_quiet) (simp add: init_state_def)
  with d have e: "\<not> print_progress cfg \<longrightarrow> printed ?out = []" by simp
  from run a b c d e show ?thesis by (intro exI [of _ ?out] conjI)
qed

theorem finalize_emits_once_more_witness:
  "\<exists>out. batch_load_files_fromconsole example_read_game sorted_list_of_set example_config
       (replicate 50000000 [] @ [example_movetext, ''1. d4'']) = Inr out \<and>
     map fst (csv_files out) = [''./lichess_games_batch1.csv'', ''./lichess_games_batch2.csv''] \<and>
     map (\<lambda>f. length (rows (snd f))) (csv_files out) = [2, 0] \<and>
     printed out =
       [''1 batches exported (2 total rows)'', ''2 batches exported (2 total rows)'']"
proof -
  let ?X = "replicate 50000000 [] @ [example_movetext, ''1. d4'']"
  have "\<exists>st. main_loop example_read_game example_config (init_state\<lparr>line_num := 50000000\<rparr>)
         [example_movetext, ''1. d4''] = Inr st \<and>
         map (\<lambda>f. length (rows (snd f))) (files st) = [2] \<and> game_batch st = [] \<and>
         map fst (files st) = [''./lichess_games_batch1.csv''] \<and>
         stdout st = [''1 batches exported (2 total rows)'']"
    by (simp add: eval_defs csv_name_def path_of_def name_of_def report_def progress_def
        str_int_def)
  moreover have "main_loop example_read_game example_config init_state ?X =
      main_loop example_read_game example_config (init_state\<lparr>line_num := 50000000\<rparr>)
        [example_movetext, ''1. d4'']"
    by (rule main_loop_skipped) simp
  ultimately obtain st where
    loop: "main_loop example_read_game example_config init_state ?X = Inr st" and
    sz: "map (\<lambda>f. length (rows (snd f))) (files st) = [2]" and gb: "game_batch st = []" and
    nm: "map fst (files st) = [''./lichess_games_batch1.csv'']" and
    so: "stdout st = [''1 batches exported (2 total rows)'']"
    by auto
  from finalize_emits_once_more [OF loop, of sorted_list_of_set] obtain out where
    run: "batch_load_files_fromconsole example_read_game sorted_list_of_set example_config ?X =
      Inr out" and
    cs: "csv_files out = files st @
       [(csv_name (path_of example_config) (name_of example_config) (batchnum st),
         DataFrame (game_batch st))]" and
    len: "length (csv_files out) = batchnum st" and
    pr: "printed out = stdout st @
       (if print_progress example_config
        then [progress (batchnum st)
                ((int (batchnum st) - 1) * batch_size example_config +
                 int (length (game_batch st)))]
        else [])"
    by blast
  have "length (map (\<lambda>f. length (rows (snd f))) (files st)) = length [2::nat]"
    by (simp only: sz)
  then have "length (files st) = 1" by simp
  with cs len have bn: "batchnum st = 2" by simp
  have names: "map fst (csv_files out) =
      [''./lichess_games_batch1.csv'', ''./lichess_games_batch2.csv'']"
    unfolding cs using nm bn
    by (simp add: csv_name_def path_of_def name_of_def example_config_def str_nat.simps
        digit_char_def)
  have sizes: "map (\<lambda>f. length (rows (snd f))) (csv_files out) = [2, 0]"
    using sz gb by (simp add: cs DataFrame_def)
  have "progress 2 ((int 2 - 1) * 2 + int 0) = ''2 batches exported (2 total rows)''"
    by code_simp
  with pr bn gb so have msg: "printed out =
      [''1 batches exported (2 total rows)'', ''2 batches exported (2 total rows)'']"
    by (simp add: example_config_def)
  from run names sizes msg show ?thesis by (intro exI [of _ out] conjI)
qed

text \<open>
  The claim as it was stated fails: with the progress lines switched off, a run that
  writes two rows prints nothing, and the files and the schema file are all that it
  leaves; the total is reported nowhere.
\<close>

theorem total_not_reported_counterexample:
  "batch_load_files_fromconsole example_read_game sorted_list_of_set example_quiet_config
     (replicate 50000000 [] @ [''1. d4'', ''1. d4'']) =
   Inr \<lparr>csv_files =
          [(''./lichess_games_batch1.csv'',
            \<lparr>columns = [''Ply''], rows = [[(''Ply'', VInt 1)], [(''Ply'', VInt 1)]]\<rparr>),
           (''./lichess_games_batch2.csv'', \<lparr>columns = [], rows = []\<rparr>)],
        schema_file = (''./lichess_games_schema.txt'', ''Ply'' @ [CHR 0x0A]),
        printed = []\<rparr>"
proof -
  have "main_loop example_read_game example_quiet_config init_state
      (replicate 50000000 [] @ [''1. d4'', ''1. d4'']) =
      main_loop example_read_game example_quiet_config (init_state\<lparr>line_num := 50000000\<rparr>)
        [''1. d4'', ''1. d4'']"
    by (rule main_loop_skipped) simp
  then show ?thesis
    by (simp add: batch_load_files_fromconsole_def eval_defs example_quiet_config_def
        finalize_def first_seen_def csv_name_def path_of_def name_of_def schema_text_def
        progress_def str_int_def report_def)
qed

subsection \<open>Lines after the last movetext line\<close>

lemma process_line_no_movetext:
  "\<not> movetext_line line \<Longrightarrow>
     \<exists>cg n. process_line rg cfg st line = Inr (st\<lparr>currgame := cg, line_num := n\<rparr>)"
proof (cases "line_num st < 50000000")
  case True
  then have "process_line rg cfg st line =
      Inr (st\<lparr>currgame := currgame st, line_num := line_num st + 1\<rparr>)"
    by (simp add: process_line_def)
  then show ?thesis by blast
next
  case False
  assume nm: "\<not> movetext_line line"
  show ?thesis
  proof (cases "strip line = []")
    case True
    with False have "process_line rg cfg st line =
        Inr (st\<lparr>currgame := currgame st, line_num := line_num st\<rparr>)"
      by (simp add: process_line_def)
    then show ?thesis by blast
  next
    case ne: False
    with nm have "\<not> isdigit (hd (strip line))" by (simp add: movetext_line_def)
    with ne False have "process_line rg cfg st line =
        Inr (st\<lparr>currgame := currgame st @ [strip line], line_num := line_num st\<rparr>)"
      by (simp add: process_line_def)
    then show ?thesis by blast
  qed
qed

lemma main_loop_no_movetext:
  "\<forall>line\<in>set ls. \<not> movetext_line line \<Longrightarrow>
     \<exists>cg n. main_loop rg cfg st ls = Inr (st\<lparr>currgame := cg, line_num := n\<rparr>)"
proof (induction ls arbitrary: st)
  case Nil
  have "main_loop rg cfg st [] = Inr (st\<lparr>currgame := currgame st, line_num := line_num st\<rparr>)"
    by simp
  then show ?case by blast
next
  case (Cons l ls)
  from Cons.prems have "\<not> movetext_line l" by simp
  from process_line_no_movetext [OF this] obtain cg n where
    s1: "process_line rg cfg st l = Inr (st\<lparr>currgame := cg, line_num := n\<rparr>)" by blast
  from Cons.prems have "\<forall>line\<in>set ls. \<not> movetext_line line" by simp
  from Cons.IH [OF this] obtain cg' n' where
    "main_loop rg cfg (st\<lparr>currgame := cg, line_num := n\<rparr>) ls =
       Inr (st\<lparr>currgame := cg, line_num := n\<rparr>\<lparr>currgame := cg', line_num := n'\<rparr>)" by blast
  with s1 have "main_loop rg cfg st (l # ls) = Inr (st\<lparr>currgame := cg', line_num := n'\<rparr>)"
    by simp
  then show ?case by blast
qed

lemma finalize_ignores_buffer:
  "finalize set_iter cfg (st\<lparr>currgame := cg, line_num := n\<rparr>) = finalize set_iter cfg st"
  by (simp add: finalize_def Let_def)

text \<open>
  Claim C7.  Lines after the last movetext line are dropped in silence: a run on an input
  followed by lines none of which is a movetext line ends as the run on the input alone
  does, with the same files, the same schema file and the same outcome.
\<close>

theorem trailing_buffer_dropped:
  assumes "\<forall>line\<in>set tail. \<not> movetext_line line"
  shows "batch_load_files_fromconsole read_game set_iter cfg (stdin @ tail) =
         batch_load_files_fromconsole read_game set_iter cfg stdin"
proof (cases "main_loop read_game cfg init_state stdin")
  case (Inl e)
  then show ?thesis by (simp add: batch_load_files_fromconsole_def main_loop_append)
next
  case (Inr st)
  from main_loop_no_movetext [OF assms] obtain cg n where
    "main_loop read_game cfg st tail = Inr (st\<lparr>currgame := cg, line_num := n\<rparr>)" by blast
  with Inr show ?thesis
    by (simp add: batch_load_files_fromconsole_def main_loop_append finalize_ignores_buffer)
qed

theorem trailing_buffer_dropped_witness:
  "batch_load_files_fromconsole example_read_game sorted_list_of_set example_config
     ((replicate 50000000 [] @ [example_movetext]) @ [''[Event \"x\"]'', ''[Site \"y\"]'']) =
   batch_load_files_fromconsole example_read_game sorted_list_of_set example_config
     (replicate 50000000 [] @ [example_movetext])"
  by (rule trailing_buffer_dropped)
     (simp add: movetext_line_def strip_def isspace_def isdigit_def)

subsection \<open>The order of iteration of the schema set\<close>



subsection \<open>One record through the loop\<close>

lemma main_loop_headers:
  "50000000 \<le> line_num st \<Longrightarrow> \<forall>line\<in>set hs. header_line line \<Longrightarrow>
     main_loop rg cfg st (hs @ rest) =
     main_loop rg cfg (st\<lparr>currgame := currgame st @ map strip hs\<rparr>) rest"
proof (induction hs arbitrary: st)
  case Nil
  then show ?case by simp
next
  case (Cons h hs)
  from Cons.prems have
    "process_line rg cfg st h = Inr (st\<lparr>currgame := currgame st @ [strip h]\<rparr>)"
    by (simp add: process_line_def header_line_def)
  moreover from Cons.prems have
    "main_loop rg cfg (st\<lparr>currgame := currgame st @ [strip h]\<rparr>) (hs @ rest) =
     main_loop rg cfg (st\<lparr>currgame := currgame st @ [strip h]\<rparr>
        \<lparr>currgame := currgame (st\<lparr>currgame := currgame st @ [strip h]\<rparr>) @ map strip hs\<rparr>) rest"
    by (intro Cons.IH) simp_all
  ultimately show ?case by simp
qed

lemma main_loop_record:
  assumes "50000000 \<le> line_num st" and "currgame st = []"
    and "wf_record rg (max_ply cfg) r"
  shows "main_loop rg cfg st (r @ rest) =
     main_loop rg cfg (end_of_batch cfg
       (st\<lparr>game_batch := game_batch st @ [projr (parse_pgn rg (map strip r) (max_ply cfg))],
           currgame := []\<rparr>)) rest"
proof -
  from assms(3) have "r \<noteq> []" by (simp add: wf_record_def)
  then obtain hs m where r: "r = hs @ [m]" by (cases r rule: rev_cases) auto
  from assms(3) r have hs: "\<forall>line\<in>set hs. header_line line" and mt: "movetext_line m"
    by (simp_all add: wf_record_def)
  from assms(3) obtain f where f: "parse_pgn rg (map strip r) (max_ply cfg) = Inr f"
    by (auto simp: wf_record_def split: sum.splits)
  let ?st1 = "st\<lparr>currgame := currgame st @ map strip hs\<rparr>"
  have "main_loop rg cfg st (hs @ (m # rest)) = main_loop rg cfg ?st1 (m # rest)"
    using assms(1) hs by (rule main_loop_headers)
  moreover have "process_line rg cfg ?st1 m =
     Inr (end_of_batch cfg (st\<lparr>game_batch := game_batch st @ [f], currgame := []\<rparr>))"
    using assms(1,2) mt f r by (simp add: process_line_def movetext_line_def)
  ultimately show ?thesis using f r by simp
qed

lemma end_of_batch_full:
  "int (length (game_batch st)) = batch_size cfg \<Longrightarrow>
     end_of_batch cfg st =
       st\<lparr>schema_columns := schema_columns st \<union> set (columns (DataFrame (game_batch st))),
          files := files st @ [(csv_name (path_of cfg) (name_of cfg) (batchnum st),
                                DataFrame (game_batch st))],
          game_batch := [],
          stdout := stdout st @
            report cfg (progress (batchnum st) (int (batchnum st) * batch_size cfg)),
          batchnum := batchnum st + 1\<rparr>"
  by (simp add: end_of_batch_def export_def Let_def)

lemma end_of_batch_partial:
  "int (length (game_batch st)) \<noteq> batch_size cfg \<Longrightarrow> end_of_batch cfg st = st"
  by (simp add: end_of_batch_def)

text \<open>
  Claim C5, as amended.  Five well-formed records that follow the 50,000,000 skipped
  lines, with \<open>batch_size = 2\<close>: three batch files are written, of ordinals 1, 2 and 3
  and with 2, 2 and 1 rows, the rows being the records' features in order, and the
  schema file holds the names of the union of the columns of the three files, sorted,
  each followed by a newline.
\<close>

theorem five_records_three_batches:
  assumes skip: "length skipped = 50000000"
    and iter: "valid_iter set_iter"
    and size: "batch_size cfg = 2"
    and five: "length recs = 5"
    and wf: "\<forall>r\<in>set recs. wf_record read_game (max_ply cfg) r"
  shows "\<exists>out.
     batch_load_files_fromconsole read_game set_iter cfg (skipped @ concat recs) = Inr out \<and>
     map (\<lambda>f. length (rows (snd f))) (csv_files out) = [2, 2, 1] \<and>
     map fst (csv_files out) = map (csv_name (path_of cfg) (name_of cfg)) [1, 2, 3] \<and>
     concat (map (\<lambda>f. rows (snd f)) (csv_files out)) =
       map (\<lambda>r. projr (parse_pgn read_game (map strip r) (max_ply cfg))) recs \<and>
     snd (schema_file out) =
       concat (map (\<lambda>name. name @ [CHR 0x0A])
         (sorted_list_of_set (\<Union>f\<in>set (csv_files out). set (columns (snd f)))))"
proof -
  from five obtain r1 r2 r3 r4 r5 where recs: "recs = [r1, r2, r3, r4, r5]"
    by (auto simp: length_Suc_conv eval_nat_numeral)
  define feat where "feat r = projr (parse_pgn read_game (map strip r) (max_ply cfg))" for r
  define p where "p = path_of cfg"
  define n where "n = name_of cfg"
  define f1 where "f1 = (csv_name p n 1, DataFrame [feat r1, feat r2])"
  define f2 where "f2 = (csv_name p n 2, DataFrame [feat r3, feat r4])"
  define f3 where "f3 = (csv_name p n 3, DataFrame [feat r5])"
  define o1 where "o1 = report cfg (progress 1 (1 * batch_size cfg))"
  define o2 where "o2 = o1 @ report cfg (progress 2 (2 * batch_size cfg))"
  define s0 where "s0 = init_state\<lparr>line_num := 50000000\<rparr>"
  define s1 where "s1 = s0\<lparr>game_batch := [feat r1]\<rparr>"
  define s2 where "s2 = s0\<lparr>schema_columns := set (columns (snd f1)), files := [f1],
     stdout := o1, batchnum := 2\<rparr>"
  define s3 where "s3 = s2\<lparr>game_batch := [feat r3]\<rparr>"
  define s4 where "s4 = s2\<lparr>schema_columns := set (columns (snd f1)) \<union> set (columns (snd f2)),
     files := [f1, f2], stdout := o2, batchnum := 3\<rparr>"
  define s5 where "s5 = s4\<lparr>game_batch := [feat r5]\<rparr>"
  note sdefs = s0_def s1_def s2_def s3_def s4_def s5_def init_state_def
  from wf recs have w: "wf_record read_game (max_ply cfg) r1"
    "wf_record read_game (max_ply cfg) r2" "wf_record read_game (max_ply cfg) r3" "wf_record read_game (max_ply cfg) r4"
    "wf_record read_game (max_ply cfg) r5" by simp_all
  have b1: "end_of_batch cfg (s0\<lparr>game_batch := game_batch s0 @ [feat r1], currgame := []\<rparr>) = s1"
    by (simp add: end_of_batch_partial size sdefs)
  have b2: "end_of_batch cfg (s1\<lparr>game_batch := game_batch s1 @ [feat r2], currgame := []\<rparr>) = s2"
    by (simp add: end_of_batch_full size sdefs f1_def o1_def p_def n_def)
  have b3: "end_of_batch cfg (s2\<lparr>game_batch := game_batch s2 @ [feat r3], currgame := []\<rparr>) = s3"
    by (simp add: end_of_batch_partial size sdefs)
  have b4: "end_of_batch cfg (s3\<lparr>game_batch := game_batch s3 @ [feat r4], currgame := []\<rparr>) = s4"
    by (simp add: end_of_batch_full size sdefs f1_def f2_def o1_def o2_def p_def n_def)
  have b5: "end_of_batch cfg (s4\<lparr>game_batch := game_batch s4 @ [feat r5], currgame := []\<rparr>) = s5"
    by (simp add: end_of_batch_partial size sdefs)
  have l: "50000000 \<le> line_num s0" "50000000 \<le> line_num s1" "50000000 \<le> line_num s2"
    "50000000 \<le> line_num s3" "50000000 \<le> line_num s4"
    by (simp_all add: sdefs)
  have c: "currgame s0 = []" "currgame s1 = []" "currgame s2 = []" "currgame s3 = []"
    "currgame s4 = []"
    by (simp_all add: sdefs)
  have e1: "main_loop read_game cfg s0 (r1 @ r2 @ r3 @ r4 @ r5) =
            main_loop read_game cfg s1 (r2 @ r3 @ r4 @ r5)"
    using main_loop_record [OF l(1) c(1) w(1)] b1 by (simp add: feat_def)
  have e2: "main_loop read_game cfg s1 (r2 @ r3 @ r4 @ r5) =
            main_loop read_game cfg s2 (r3 @ r4 @ r5)"
    using main_loop_record [OF l(2) c(2) w(2)] b2 by (simp add: feat_def)
  have e3: "main_loop read_game cfg s2 (r3 @ r4 @ r5) = main_loop read_game cfg s3 (r4 @ r5)"
    using main_loop_record [OF l(3) c(3) w(3)] b3 by (simp add: feat_def)
  have e4: "main_loop read_game cfg s3 (r4 @ r5) = main_loop read_game cfg s4 r5"
    using main_loop_record [OF l(4) c(4) w(4)] b4 by (simp add: feat_def)
  have e5: "main_loop read_game cfg s4 r5 = Inr s5"
    using main_loop_record [OF l(5) c(5) w(5), of "[]"] b5 by (simp add: feat_def)
  have loop: "main_loop read_game cfg init_state (skipped @ concat recs) = Inr s5"
    using main_loop_skipped [OF skip, of read_game cfg "concat recs"] e1 e2 e3 e4 e5
    by (simp add: recs s0_def)
  let ?S = "set (columns (snd f1)) \<union> set (columns (snd f2)) \<union> set (columns (snd f3))"
  have "finite ?S" by simp
  from sort_valid_iter [OF iter this]
  have sch: "snd (schema_file (finalize set_iter cfg s5)) = schema_text (sorted_list_of_set ?S)"
    by (simp add: finalize_def export_def Let_def sdefs f3_def p_def n_def)
  have cs: "csv_files (finalize set_iter cfg s5) = [f1, f2, f3]"
    by (simp add: finalize_def export_def Let_def sdefs f3_def p_def n_def)
  have run: "batch_load_files_fromconsole read_game set_iter cfg (skipped @ concat recs) =
     Inr (finalize set_iter cfg s5)"
    using loop by (simp add: batch_load_files_fromconsole_def)
  have "map (\<lambda>f. length (rows (snd f))) [f1, f2, f3] = [2, 2, 1]"
    by (simp add: f1_def f2_def f3_def DataFrame_def)
  moreover have "map fst [f1, f2, f3] = map (csv_name (path_of cfg) (name_of cfg)) [1, 2, 3]"
    by (simp add: f1_def f2_def f3_def p_def n_def)
  moreover have "concat (map (\<lambda>f. rows (snd f)) [f1, f2, f3]) =
       map (\<lambda>r. projr (parse_pgn read_game (map strip r) (max_ply cfg))) recs"
    by (simp add: f1_def f2_def f3_def DataFrame_def recs feat_def)
  moreover have "?S = (\<Union>f\<in>set [f1, f2, f3]. set (columns (snd f)))"
    by auto
  ultimately show ?thesis using run sch cs by (simp add: schema_text_def)
qed

theorem five_records_three_batches_witness:
  "\<exists>out. batch_load_files_fromconsole example_read_game sorted_list_of_set example_config
       (replicate 50000000 [] @
        concat [[''[Event \"A\"]'', example_movetext], [''1. d4''],
                [''[Event \"B\"]'', ''[Site \"x\"]'', ''1. e4 e5''], [example_movetext],
                [''1. d4'']]) = Inr out \<and>
     map (\<lambda>f. length (rows (snd f))) (csv_files out) = [2, 2, 1] \<and>
     map fst (csv_files out) =
       map (csv_name (path_of example_config) (name_of example_config)) [1, 2, 3] \<and>
     concat (map (\<lambda>f. rows (snd f)) (csv_files out)) =
       map (\<lambda>r. projr (parse_pgn example_read_game (map strip r) (max_ply example_config)))
         [[''[Event \"A\"]'', example_movetext], [''1. d4''],
          [''[Event \"B\"]'', ''[Site \"x\"]'', ''1. e4 e5''], [example_movetext], [''1. d4'']] \<and>
     snd (schema_file out) =
       concat (map (\<lambda>name. name @ [CHR 0x0A])
         (sorted_list_of_set (\<Union>f\<in>set (csv_files out). set (columns (snd f)))))"
proof (rule five_records_three_batches)
  show "length (replicate 50000000 ([]::string)) = 50000000" by simp
  show "valid_iter sorted_list_of_set" by (rule valid_iter_sorted)
  show "batch_size example_config = 2" by (simp add: example_config_def)
  show "length [[''[Event \"A\"]'', example_movetext], [''1. d4''],
          [''[Event \"B\"]'', ''[Site \"x\"]'', ''1. e4 e5''], [example_movetext], [''1. d4'']] = 5"
    by simp
  show "\<forall>r\<in>set [[''[Event \"A\"]'', example_movetext], [''1. d4''],
       [''[Event \"B\"]'', ''[Site \"x\"]'', ''1. e4 e5''], [example_movetext], [''1. d4'']].
     wf_record example_read_game (max_ply example_config) r"
    by code_simp
qed

text \<open>
  The claim as it was stated fails: five records alone are among the skipped lines, and
  the run writes one batch file, with no rows, and an empty schema file.
\<close>

theorem five_records_skipped_counterexample:
  "batch_load_files_fromconsole example_read_game sorted_list_of_set example_config
     (concat [[''[Event \"A\"]'', example_movetext], [''1. d4''],
              [''[Event \"B\"]'', ''[Site \"x\"]'', ''1. e4 e5''], [example_movetext],
              [''1. d4'']]) =
   Inr \<lparr>csv_files = [(''./lichess_games_batch1.csv'', \<lparr>columns = [], rows = []\<rparr>)],
        schema_file = (''./lichess_games_schema.txt'', []),
        printed = [''1 batches exported (0 total rows)'']\<rparr>"
  by (simp add: batch_load_files_fromconsole_def process_line_def init_state_def finalize_def
      export_def DataFrame_def first_seen_def csv_name_def path_of_def name_of_def
      example_config_def str_nat.simps digit_char_def schema_text_def progress_def str_int_def
      report_def)


end
